theory Spec2Isabelle
  imports Main
begin

section \<open>Errors, results and plain data\<close>

text \<open>
  Go errors are values.  Three kinds are told apart by the controller: the resource store's
  "not found" (\<open>k8s_errors.IsNotFound\<close>), the error built by \<open>util.WrapErrorForObject\<close>
  when several remote endpoints match one type (it carries the service name and the type),
  and every other failure.
\<close>

datatype error =
    NotFound string
  | Failure string
  | MultipleEndpoints string string

fun IsNotFound :: "error \<Rightarrow> bool" where
  "IsNotFound (NotFound _) = True"
| "IsNotFound _ = False"

text \<open>\<open>ctrl.Result\<close>; \<open>RequeueAfter\<close> is counted in seconds, \<open>ctrl.Result{}\<close> is \<open>NoRequeue\<close>.\<close>

record ctrl_Result =
  Requeue :: bool
  RequeueAfter :: nat

definition NoRequeue :: ctrl_Result where
  "NoRequeue = \<lparr>Requeue = False, RequeueAfter = 0\<rparr>"

definition RequeueAfterSeconds :: "nat \<Rightarrow> ctrl_Result" where
  "RequeueAfterSeconds n = \<lparr>Requeue = False, RequeueAfter = n\<rparr>"

text \<open>\<open>keystonev1.Endpoint\<close>, one entry of \<open>Status.Endpoints\<close>.\<close>

record Endpoint =
  Interface :: string
  URL :: string
  ID :: string

text \<open>\<open>openstack.Endpoint\<close>, the argument of the create, update and delete calls; a field the
  caller leaves out has Go's zero value, the empty string.\<close>

record os_Endpoint =
  os_Name :: string
  os_ServiceID :: string
  os_Availability :: string
  os_URL :: string

text \<open>An endpoint as the identity service returns it from a query.\<close>

record remote_Endpoint =
  re_ID :: string
  re_Name :: string
  re_ServiceID :: string
  re_URL :: string

subsection \<open>Conditions\<close>

datatype ConditionStatus = ConditionTrue | ConditionFalse | ConditionUnknown

datatype ConditionSeverity = SeverityError | SeverityWarning | SeverityInfo | SeverityNone

datatype ConditionReason = InitReason | ErrorReason | RequestedReason | ReadyReason | OtherReason string

datatype ConditionType =
    ReadyCondition
  | KeystoneAPIReadyCondition
  | AdminServiceClientReadyCondition
  | KeystoneServiceOSEndpointsReadyCondition
  | KeystoneServiceReadyCondition
  | OtherCondition string

text \<open>The message constants of the condition packages, kept symbolic; a format string applied
  to an error keeps the error, and a message copied from another resource is free text.\<close>

datatype ConditionMessage =
    ReadyMessage
  | ReadyInitMessage
  | KeystoneAPIReadyInitMessage
  | KeystoneAPIReadyNotFoundMessage
  | KeystoneAPIReadyErrorMessage error
  | KeystoneAPIReadyWaitingMessage
  | KeystoneAPIReadyMessage
  | AdminServiceClientReadyInitMessage
  | AdminServiceClientReadyErrorMessage error
  | AdminServiceClientReadyWaitingMessage
  | AdminServiceClientReadyMessage
  | KeystoneServiceOSEndpointsReadyInitMessage
  | KeystoneServiceOSEndpointsReadyErrorMessage error
  | KeystoneServiceOSEndpointsReadyMessage
  | EmptyMessage
  | OtherMessage string

record Condition =
  Type :: ConditionType
  Status :: ConditionStatus
  Reason :: ConditionReason
  Severity :: ConditionSeverity
  Message :: ConditionMessage

subsection \<open>The resource and its two dependencies\<close>

text \<open>
  \<open>KeystoneEndpoint\<close> with the fields of its \<open>Spec\<close> and \<open>Status\<close> written out.  A Go map is a
  partial function; \<open>Reconcile\<close> replaces a nil \<open>EndpointIDs\<close> and a nil \<open>Endpoints\<close> by empty
  ones before it reads them, so nil and empty are one value here.  \<open>Conditions\<close> is compared
  with nil, so it keeps the difference: \<open>None\<close> is nil.  A zero \<open>DeletionTimestamp\<close> is \<open>None\<close>.
\<close>

record KeystoneEndpoint =
  Name :: string
  Namespace :: string
  Generation :: int
  DeletionTimestamp :: "nat option"
  Finalizers :: "string list"
  Spec_ServiceName :: string
  Spec_Endpoints :: "string \<rightharpoonup> string"
  Status_Conditions :: "Condition list option"
  Status_ServiceID :: string
  Status_EndpointIDs :: "string \<rightharpoonup> string"
  Status_Endpoints :: "Endpoint list"
  Status_ObservedGeneration :: int

record KeystoneAPI =
  api_DeletionTimestamp :: "nat option"
  api_Finalizers :: "string list"
  api_IsReady :: bool

record KeystoneService =
  svc_Finalizers :: "string list"
  svc_IsReady :: bool
  svc_ServiceID :: string
  svc_Conditions :: "Condition list"

section \<open>Collaborators\<close>

text \<open>
  The calls a pass makes, in the order it makes them.  A call to the identity service is
  tagged with the endpoint type whose loop iteration made it; a query also keeps the answer
  it got.  The two \<open>r.Update\<close> calls keep the object they wrote.
\<close>

datatype os_call =
    GetEndpointsCall string string "error + remote_Endpoint list"
  | CreateEndpointCall os_Endpoint
  | UpdateEndpointCall os_Endpoint string
  | DeleteEndpointCall os_Endpoint

datatype event =
    OsCall string os_call
  | UpdateKeystoneService KeystoneService
  | UpdateKeystoneAPI KeystoneAPI

text \<open>
  Everything outside the controller answers through this record: the resource store, the
  libraries and the identity service, whose registry is a state of type \<open>'r\<close> that the
  create, update and delete calls may change and that starts the pass as \<open>Registry\<close>.
  \<open>GetAdminServiceClient\<close> answers with a result and an error; the client itself is the four
  calls below.  \<open>Relevance\<close> is the condition library's ranking of conditions, which looks
  at status, severity and transition time: the higher, the more relevant.  \<open>idsOrder\<close> and
  \<open>specOrder\<close> are the orders in which the Go runtime enumerates \<open>Status.EndpointIDs\<close> and
  \<open>Spec.Endpoints\<close> in this pass.
\<close>

record 'r world =
  GetInstance :: "error + KeystoneEndpoint"
  NewHelper :: "error option"
  GetFinalizer :: string
  GetKeystoneAPI :: "error + KeystoneAPI"
  GetAdminServiceClient :: "ctrl_Result \<times> error option"
  GetKeystoneServiceWithName :: "error + KeystoneService"
  UpdateService :: "KeystoneService \<Rightarrow> error option"
  UpdateAPI :: "KeystoneAPI \<Rightarrow> error option"
  PatchInstance :: "KeystoneEndpoint \<Rightarrow> error option"
  Relevance :: "Condition \<Rightarrow> nat"
  GetAvailability :: "string \<Rightarrow> error + string"
  Registry :: "'r"
  GetEndpoints :: "'r \<Rightarrow> string \<Rightarrow> string \<Rightarrow> error + remote_Endpoint list"
  CreateEndpoint :: "'r \<Rightarrow> os_Endpoint \<Rightarrow> (error + string) \<times> 'r"
  UpdateEndpoint :: "'r \<Rightarrow> os_Endpoint \<Rightarrow> string \<Rightarrow> (error + string) \<times> 'r"
  DeleteEndpoint :: "'r \<Rightarrow> os_Endpoint \<Rightarrow> error option \<times> 'r"
  idsOrder :: "string list"
  specOrder :: "string list"

text \<open>What a pass carries along: the instance it mutates, the registry, the calls so far.\<close>

record 'r pass =
  inst :: KeystoneEndpoint
  remote :: 'r
  calls :: "event list"

text \<open>An order enumerates a map when it lists each key once.\<close>

definition enumerates :: "string list \<Rightarrow> (string \<rightharpoonup> string) \<Rightarrow> bool" where
  "enumerates ks m = (distinct ks \<and> set ks = dom m)"

section \<open>The endpoint sync engine\<close>

text \<open>\<open>slices.IndexFunc\<close>: the first index whose element satisfies \<open>f\<close>, or \<open>-1\<close>.\<close>

fun IndexFunc :: "'a list \<Rightarrow> ('a \<Rightarrow> bool) \<Rightarrow> int" where
  "IndexFunc [] f = - 1"
| "IndexFunc (x # xs) f =
     (if f x then 0 else (let i = IndexFunc xs f in if i < 0 then - 1 else i + 1))"

definition getEndpointIdx :: "string \<Rightarrow> Endpoint list \<Rightarrow> int" where
  "getEndpointIdx endpointType endpoints = IndexFunc endpoints (\<lambda>e. Interface e = endpointType)"

text \<open>Lines 485-491: drop the type from \<open>EndpointIDs\<close> and its first entry from the
  \<open>Endpoints\<close> list.\<close>

definition forgetEndpoint :: "string \<Rightarrow> KeystoneEndpoint \<Rightarrow> KeystoneEndpoint" where
  "forgetEndpoint endpointType i =
     (let ids = (Status_EndpointIDs i)(endpointType := None);
          idx = getEndpointIdx endpointType (Status_Endpoints i);
          eps = (if idx \<ge> 0
                 then take (nat idx) (Status_Endpoints i) @ drop (nat idx + 1) (Status_Endpoints i)
                 else Status_Endpoints i)
      in i\<lparr>Status_EndpointIDs := ids, Status_Endpoints := eps\<rparr>)"

text \<open>The argument of the delete call, built the same way at lines 475-479 and 279-283.\<close>

definition deleteRequest :: "KeystoneEndpoint \<Rightarrow> string \<Rightarrow> os_Endpoint" where
  "deleteRequest i availability =
     \<lparr>os_Name = Spec_ServiceName i, os_ServiceID = Status_ServiceID i,
      os_Availability = availability, os_URL = ''''\<rparr>"

text \<open>One iteration of the first loop of \<open>reconcileEndpoints\<close> (lines 465-493).\<close>

definition retireOne :: "'r world \<Rightarrow> string \<Rightarrow> 'r pass \<Rightarrow> error option \<times> 'r pass" where
  "retireOne w endpointType st =
     (let i = inst st in
      if Spec_Endpoints i endpointType \<noteq> None then (None, st)
      else
        case GetAvailability w endpointType of
          Inl err \<Rightarrow> (Some err, st)
        | Inr availability \<Rightarrow>
            let ep = deleteRequest i availability;
                (err, r') = DeleteEndpoint w (remote st) ep;
                st1 = st\<lparr>remote := r',
                         calls := calls st @ [OsCall endpointType (DeleteEndpointCall ep)]\<rparr>
            in (case err of
                  Some e \<Rightarrow> (Some e, st1)
                | None \<Rightarrow> (None, st1\<lparr>inst := forgetEndpoint endpointType i\<rparr>)))"

text \<open>The loop itself.  \<open>range\<close> produces the keys that are in the map when their turn comes,
  in the runtime's order; an error ends the function at once.\<close>

fun retireLoop :: "'r world \<Rightarrow> string list \<Rightarrow> 'r pass \<Rightarrow> error option \<times> 'r pass" where
  "retireLoop w [] st = (None, st)"
| "retireLoop w (endpointType # rest) st =
     (if Status_EndpointIDs (inst st) endpointType = None then retireLoop w rest st
      else case retireOne w endpointType st of
             (Some err, st') \<Rightarrow> (Some err, st')
           | (None, st') \<Rightarrow> retireLoop w rest st')"

text \<open>Lines 557-574: record the identifier in \<open>EndpointIDs\<close> and in the \<open>Endpoints\<close> list.\<close>

definition recordEndpoint ::
  "string \<Rightarrow> string \<Rightarrow> string \<Rightarrow> KeystoneEndpoint \<Rightarrow> KeystoneEndpoint" where
  "recordEndpoint endpointType endpointURL endpointID i =
     (if endpointID = '''' then i
      else
        let ids = (if Spec_Endpoints i endpointType \<noteq> None
                   then (Status_EndpointIDs i)(endpointType \<mapsto> endpointID)
                   else Status_EndpointIDs i);
            idx = getEndpointIdx endpointType (Status_Endpoints i);
            eps = (if idx \<ge> 0
                   then (Status_Endpoints i)
                          [nat idx := (Status_Endpoints i ! nat idx)\<lparr>URL := endpointURL,
                                                                     ID := endpointID\<rparr>]
                   else Status_Endpoints i
                        @ [\<lparr>Interface = endpointType, URL = endpointURL, ID = endpointID\<rparr>])
        in i\<lparr>Status_EndpointIDs := ids, Status_Endpoints := eps\<rparr>)"

text \<open>One iteration of the second loop (lines 497-575).\<close>

definition convergeOne ::
  "'r world \<Rightarrow> string \<Rightarrow> string \<Rightarrow> 'r pass \<Rightarrow> error option \<times> 'r pass" where
  "convergeOne w endpointType endpointURL st =
     (let i = inst st in
      case GetAvailability w endpointType of
        Inl err \<Rightarrow> (Some err, st)
      | Inr availability \<Rightarrow>
          let res = GetEndpoints w (remote st) (Status_ServiceID i) endpointType;
              st1 = st\<lparr>calls := calls st @
                        [OsCall endpointType
                           (GetEndpointsCall (Status_ServiceID i) endpointType res)]\<rparr>
          in (case res of
               Inl err \<Rightarrow> (Some err, st1)
             | Inr allEndpoints \<Rightarrow>
                 (case allEndpoints of
                    [] \<Rightarrow>
                      let ep = \<lparr>os_Name = Spec_ServiceName i, os_ServiceID = Status_ServiceID i,
                                os_Availability = availability, os_URL = endpointURL\<rparr>;
                          (r, r') = CreateEndpoint w (remote st1) ep;
                          st2 = st1\<lparr>remote := r',
                                    calls := calls st1 @
                                      [OsCall endpointType (CreateEndpointCall ep)]\<rparr>
                      in (case r of
                            Inl err \<Rightarrow> (Some err, st2)
                          | Inr endpointID \<Rightarrow>
                              (None, st2\<lparr>inst :=
                                 recordEndpoint endpointType endpointURL endpointID i\<rparr>))
                  | [endpoint] \<Rightarrow>
                      if endpointURL \<noteq> re_URL endpoint then
                        let ep = \<lparr>os_Name = re_Name endpoint,
                                  os_ServiceID = re_ServiceID endpoint,
                                  os_Availability = availability, os_URL = endpointURL\<rparr>;
                            (r, r') = UpdateEndpoint w (remote st1) ep (re_ID endpoint);
                            st2 = st1\<lparr>remote := r',
                                      calls := calls st1 @
                                        [OsCall endpointType
                                           (UpdateEndpointCall ep (re_ID endpoint))]\<rparr>
                        in (case r of
                              Inl err \<Rightarrow> (Some err, st2)
                            | Inr endpointID \<Rightarrow>
                                (None, st2\<lparr>inst :=
                                   recordEndpoint endpointType endpointURL endpointID i\<rparr>))
                      else (None, st1\<lparr>inst :=
                              recordEndpoint endpointType endpointURL (re_ID endpoint) i\<rparr>)
                  | _ \<Rightarrow> (Some (MultipleEndpoints (Spec_ServiceName i) endpointType), st1))))"

fun convergeLoop :: "'r world \<Rightarrow> string list \<Rightarrow> 'r pass \<Rightarrow> error option \<times> 'r pass" where
  "convergeLoop w [] st = (None, st)"
| "convergeLoop w (endpointType # rest) st =
     (case Spec_Endpoints (inst st) endpointType of
        None \<Rightarrow> convergeLoop w rest st
      | Some endpointURL \<Rightarrow>
          (case convergeOne w endpointType endpointURL st of
             (Some err, st') \<Rightarrow> (Some err, st')
           | (None, st') \<Rightarrow> convergeLoop w rest st'))"

definition reconcileEndpoints :: "'r world \<Rightarrow> 'r pass \<Rightarrow> error option \<times> 'r pass" where
  "reconcileEndpoints w st =
     (case retireLoop w (idsOrder w) st of
        (Some err, st') \<Rightarrow> (Some err, st')
      | (None, st') \<Rightarrow> convergeLoop w (specOrder w) st')"

section \<open>Conditions and finalizers\<close>

text \<open>
  Modelled from the spec: the condition library and \<open>controllerutil\<close> are not under src/.
  A condition list holds one condition per type; \<open>Set\<close> replaces the condition of the same
  type or appends, \<open>MarkTrue\<close> and \<open>MarkUnknown\<close> set a condition built from their
  arguments, \<open>AllSubConditionIsTrue\<close> looks at every condition but \<open>Ready\<close>.  The library
  also re-sorts the list; the properties below speak of the condition of each type, not of
  positions.  Adding and removing a finalizer are set operations that report whether the
  list changed.
\<close>

definition TrueCondition :: "ConditionType \<Rightarrow> ConditionMessage \<Rightarrow> Condition" where
  "TrueCondition t m =
     \<lparr>Type = t, Status = ConditionTrue, Reason = ReadyReason, Severity = SeverityNone,
      Message = m\<rparr>"

definition FalseCondition ::
  "ConditionType \<Rightarrow> ConditionReason \<Rightarrow> ConditionSeverity \<Rightarrow> ConditionMessage \<Rightarrow> Condition" where
  "FalseCondition t r s m =
     \<lparr>Type = t, Status = ConditionFalse, Reason = r, Severity = s, Message = m\<rparr>"

definition UnknownCondition ::
  "ConditionType \<Rightarrow> ConditionReason \<Rightarrow> ConditionMessage \<Rightarrow> Condition" where
  "UnknownCondition t r m =
     \<lparr>Type = t, Status = ConditionUnknown, Reason = r, Severity = SeverityNone, Message = m\<rparr>"

fun Conditions_Set :: "Condition \<Rightarrow> Condition list \<Rightarrow> Condition list" where
  "Conditions_Set c [] = [c]"
| "Conditions_Set c (x # xs) = (if Type x = Type c then c # xs else x # Conditions_Set c xs)"

definition MarkTrue :: "ConditionType \<Rightarrow> ConditionMessage \<Rightarrow> Condition list \<Rightarrow> Condition list" where
  "MarkTrue t m cs = Conditions_Set (TrueCondition t m) cs"

definition MarkUnknown ::
  "ConditionType \<Rightarrow> ConditionReason \<Rightarrow> ConditionMessage \<Rightarrow> Condition list \<Rightarrow> Condition list" where
  "MarkUnknown t r m cs = Conditions_Set (UnknownCondition t r m) cs"

definition AllSubConditionIsTrue :: "Condition list \<Rightarrow> bool" where
  "AllSubConditionIsTrue cs = list_all (\<lambda>c. Type c = ReadyCondition \<or> Status c = ConditionTrue) cs"

definition GetCondition :: "ConditionType \<Rightarrow> Condition list \<Rightarrow> Condition option" where
  "GetCondition t cs = find (\<lambda>c. Type c = t) cs"

text \<open>\<open>Init\<close>: the \<open>Ready\<close> condition as unknown, then the given list.\<close>

definition Conditions_Init :: "Condition list \<Rightarrow> Condition list" where
  "Conditions_Init cl =
     fold Conditions_Set cl [UnknownCondition ReadyCondition InitReason ReadyInitMessage]"

definition AddFinalizer :: "string \<Rightarrow> string list \<Rightarrow> bool \<times> string list" where
  "AddFinalizer f fs = (if f \<in> set fs then (False, fs) else (True, fs @ [f]))"

definition RemoveFinalizer :: "string \<Rightarrow> string list \<Rightarrow> bool \<times> string list" where
  "RemoveFinalizer f fs = (f \<in> set fs, filter (\<lambda>x. x \<noteq> f) fs)"

text \<open>
  Modelled from the spec: \<open>Mirror\<close> of the condition library, which is not under src/.  The
  spec has it as a pure function from a condition list and a type to an optional condition
  that "mirrors the worst/most-informative non-ready condition", and the comment at its call
  in \<open>reconcileNormal\<close> says that status, reason, severity and message are copied into a
  condition of the given type.  So: the conditions of another type that are not true are
  looked at first, and only if there is none, those that are true; of the ones looked at
  the most relevant is taken, the earliest on a tie, and copied under the requested type.
  With no condition of another type there is nothing to copy.
\<close>

fun mostRelevant :: "(Condition \<Rightarrow> nat) \<Rightarrow> Condition \<Rightarrow> Condition list \<Rightarrow> Condition" where
  "mostRelevant rel best [] = best"
| "mostRelevant rel best (c # cs) = mostRelevant rel (if rel best < rel c then c else best) cs"

definition Conditions_Mirror ::
  "(Condition \<Rightarrow> nat) \<Rightarrow> ConditionType \<Rightarrow> Condition list \<Rightarrow> Condition option" where
  "Conditions_Mirror rel t cs =
     (case filter (\<lambda>c. Type c \<noteq> t \<and> Status c \<noteq> ConditionTrue) cs of
        c # rest \<Rightarrow> Some ((mostRelevant rel c rest)\<lparr>Type := t\<rparr>)
      | [] \<Rightarrow> (case filter (\<lambda>c. Type c \<noteq> t) cs of
                 c # rest \<Rightarrow> Some ((mostRelevant rel c rest)\<lparr>Type := t\<rparr>)
               | [] \<Rightarrow> None))"

section \<open>The reconcile orchestrator\<close>

text \<open>The conditions of the instance, a nil list read as the empty one, and the instance with
  its conditions replaced.\<close>

definition conds :: "KeystoneEndpoint \<Rightarrow> Condition list" where
  "conds i = (case Status_Conditions i of None \<Rightarrow> [] | Some cs \<Rightarrow> cs)"

definition setConditions :: "(Condition list \<Rightarrow> Condition list) \<Rightarrow> 'r pass \<Rightarrow> 'r pass" where
  "setConditions f st = st\<lparr>inst := (inst st)\<lparr>Status_Conditions := Some (f (conds (inst st)))\<rparr>\<rparr>"

text \<open>\<open>fmt.Sprintf("%s-%s", helper.GetFinalizer(), instance.Name)\<close>, the marker this instance
  puts on its dependencies.\<close>

definition marker :: "'r world \<Rightarrow> KeystoneEndpoint \<Rightarrow> string" where
  "marker w i = GetFinalizer w @ ''-'' @ Name i"

text \<open>The loop of \<open>reconcileDelete\<close> (lines 270-288): a delete for every type of the spec.\<close>

fun deleteLoop :: "'r world \<Rightarrow> string list \<Rightarrow> 'r pass \<Rightarrow> error option \<times> 'r pass" where
  "deleteLoop w [] st = (None, st)"
| "deleteLoop w (endpointType # rest) st =
     (case Spec_Endpoints (inst st) endpointType of
        None \<Rightarrow> deleteLoop w rest st
      | Some _ \<Rightarrow>
          (case GetAvailability w endpointType of
             Inl err \<Rightarrow> (Some err, st)
           | Inr availability \<Rightarrow>
               let ep = deleteRequest (inst st) availability;
                   (err, r') = DeleteEndpoint w (remote st) ep;
                   st1 = st\<lparr>remote := r',
                            calls := calls st @ [OsCall endpointType (DeleteEndpointCall ep)]\<rparr>
               in (case err of
                     Some e \<Rightarrow> (Some e, st1)
                   | None \<Rightarrow> deleteLoop w rest st1)))"

text \<open>Lines 294-306 and 336-348: take the marker off the service registration, if there is
  one; a missing registration is not an error.\<close>

definition releaseService :: "'r world \<Rightarrow> 'r pass \<Rightarrow> error option \<times> 'r pass" where
  "releaseService w st =
     (case GetKeystoneServiceWithName w of
        Inr ksSvc \<Rightarrow>
          let (changed, fs) = RemoveFinalizer (marker w (inst st)) (svc_Finalizers ksSvc);
              ksSvc' = ksSvc\<lparr>svc_Finalizers := fs\<rparr>
          in if changed
             then (UpdateService w ksSvc', st\<lparr>calls := calls st @ [UpdateKeystoneService ksSvc']\<rparr>)
             else (None, st)
      | Inl err \<Rightarrow> if \<not> IsNotFound err then (Some err, st) else (None, st))"

text \<open>Lines 311-317 and 350-356: take the marker off the identity-API registration.\<close>

definition releaseAPI :: "'r world \<Rightarrow> KeystoneAPI \<Rightarrow> 'r pass \<Rightarrow> error option \<times> 'r pass" where
  "releaseAPI w keystoneAPI st =
     (let (changed, fs) = RemoveFinalizer (marker w (inst st)) (api_Finalizers keystoneAPI);
          keystoneAPI' = keystoneAPI\<lparr>api_Finalizers := fs\<rparr>
      in if changed
         then (UpdateAPI w keystoneAPI',
               st\<lparr>calls := calls st @ [UpdateKeystoneAPI keystoneAPI']\<rparr>)
         else (None, st))"

text \<open>Lines 321 and 358: drop the instance's own finalizer.\<close>

definition removeOwnFinalizer :: "'r world \<Rightarrow> 'r pass \<Rightarrow> 'r pass" where
  "removeOwnFinalizer w st =
     st\<lparr>inst := (inst st)\<lparr>Finalizers :=
        snd (RemoveFinalizer (GetFinalizer w) (Finalizers (inst st)))\<rparr>\<rparr>"

text \<open>\<open>reconcileDelete\<close>; \<open>os\<close> says whether there is a client (\<open>os != nil\<close>), \<open>keystoneAPI\<close> is
  \<open>None\<close> for nil.\<close>

definition reconcileDelete ::
  "'r world \<Rightarrow> bool \<Rightarrow> KeystoneAPI option \<Rightarrow> 'r pass \<Rightarrow> (ctrl_Result \<times> error option) \<times> 'r pass" where
  "reconcileDelete w os keystoneAPI st =
     (case (if os then deleteLoop w (specOrder w) st else (None, st)) of
        (Some err, st1) \<Rightarrow> ((NoRequeue, Some err), st1)
      | (None, st1) \<Rightarrow>
          let st2 = st1\<lparr>inst := (inst st1)\<lparr>Status_EndpointIDs := Map.empty\<rparr>\<rparr> in
          (case releaseService w st2 of
             (Some err, st3) \<Rightarrow> ((NoRequeue, Some err), st3)
           | (None, st3) \<Rightarrow>
               (case (case keystoneAPI of
                        None \<Rightarrow> (None, st3)
                      | Some api \<Rightarrow> releaseAPI w api st3) of
                  (Some err, st4) \<Rightarrow> ((NoRequeue, Some err), st4)
                | (None, st4) \<Rightarrow> ((NoRequeue, None), removeOwnFinalizer w st4))))"

definition reconcileDeleteFinalizersOnly ::
  "'r world \<Rightarrow> KeystoneAPI \<Rightarrow> 'r pass \<Rightarrow> (ctrl_Result \<times> error option) \<times> 'r pass" where
  "reconcileDeleteFinalizersOnly w keystoneAPI st =
     (case releaseService w st of
        (Some err, st1) \<Rightarrow> ((NoRequeue, Some err), st1)
      | (None, st1) \<Rightarrow>
          (case releaseAPI w keystoneAPI st1 of
             (Some err, st2) \<Rightarrow> ((NoRequeue, Some err), st2)
           | (None, st2) \<Rightarrow> ((NoRequeue, None), removeOwnFinalizer w st2)))"

text \<open>Lines 407-425 of \<open>reconcileNormal\<close>: put the marker on both dependencies.\<close>

definition holdAPI :: "'r world \<Rightarrow> KeystoneAPI \<Rightarrow> 'r pass \<Rightarrow> error option \<times> 'r pass" where
  "holdAPI w keystoneAPI st =
     (let (changed, fs) = AddFinalizer (marker w (inst st)) (api_Finalizers keystoneAPI);
          keystoneAPI' = keystoneAPI\<lparr>api_Finalizers := fs\<rparr>
      in if changed
         then (UpdateAPI w keystoneAPI',
               st\<lparr>calls := calls st @ [UpdateKeystoneAPI keystoneAPI']\<rparr>)
         else (None, st))"

definition holdService :: "'r world \<Rightarrow> KeystoneService \<Rightarrow> 'r pass \<Rightarrow> error option \<times> 'r pass" where
  "holdService w ksSvc st =
     (let (changed, fs) = AddFinalizer (marker w (inst st)) (svc_Finalizers ksSvc);
          ksSvc' = ksSvc\<lparr>svc_Finalizers := fs\<rparr>
      in if changed
         then (UpdateService w ksSvc', st\<lparr>calls := calls st @ [UpdateKeystoneService ksSvc']\<rparr>)
         else (None, st))"

definition reconcileNormal ::
  "'r world \<Rightarrow> KeystoneAPI \<Rightarrow> 'r pass \<Rightarrow> (ctrl_Result \<times> error option) \<times> 'r pass" where
  "reconcileNormal w keystoneAPI st =
     (case GetKeystoneServiceWithName w of
        Inl err \<Rightarrow>
          if IsNotFound err then ((RequeueAfterSeconds 5, None), st)
          else ((NoRequeue, Some err), st)
      | Inr ksSvc \<Rightarrow>
          let st1 = (case Conditions_Mirror (Relevance w) KeystoneServiceReadyCondition
                             (svc_Conditions ksSvc) of
                       None \<Rightarrow> st
                     | Some c \<Rightarrow> setConditions (Conditions_Set c) st)
          in if \<not> svc_IsReady ksSvc then ((RequeueAfterSeconds 10, None), st1)
             else
               let st2 = st1\<lparr>inst := (inst st1)\<lparr>Status_ServiceID := svc_ServiceID ksSvc\<rparr>\<rparr> in
               (case holdAPI w keystoneAPI st2 of
                  (Some err, st3) \<Rightarrow> ((NoRequeue, Some err), st3)
                | (None, st3) \<Rightarrow>
                    (case holdService w ksSvc st3 of
                       (Some err, st4) \<Rightarrow> ((NoRequeue, Some err), st4)
                     | (None, st4) \<Rightarrow>
                         (case reconcileEndpoints w st4 of
                            (Some err, st5) \<Rightarrow>
                              ((NoRequeue, Some err),
                               setConditions
                                 (Conditions_Set
                                    (FalseCondition KeystoneServiceOSEndpointsReadyCondition
                                       ErrorReason SeverityWarning
                                       (KeystoneServiceOSEndpointsReadyErrorMessage err))) st5)
                          | (None, st5) \<Rightarrow>
                              ((NoRequeue, None),
                               setConditions
                                 (MarkTrue KeystoneServiceOSEndpointsReadyCondition
                                    KeystoneServiceOSEndpointsReadyMessage) st5)))))"

text \<open>Lines 152-245 of \<open>Reconcile\<close>: from the lookup of the identity API to the dispatch.\<close>

definition reconcileDependencies ::
  "'r world \<Rightarrow> 'r pass \<Rightarrow> (ctrl_Result \<times> error option) \<times> 'r pass" where
  "reconcileDependencies w st =
     (let deleting = (DeletionTimestamp (inst st) \<noteq> None);
          nothingRecorded = (Status_EndpointIDs (inst st) = Map.empty)
      in case GetKeystoneAPI w of
           Inl err \<Rightarrow>
             if IsNotFound err then
               if deleting \<and> nothingRecorded then reconcileDelete w False None st
               else ((RequeueAfterSeconds 5, None),
                     setConditions
                       (Conditions_Set
                          (FalseCondition KeystoneAPIReadyCondition ErrorReason SeverityWarning
                             KeystoneAPIReadyNotFoundMessage)) st)
             else ((NoRequeue, Some err),
                   setConditions
                     (Conditions_Set
                        (FalseCondition KeystoneAPIReadyCondition ErrorReason SeverityWarning
                           (KeystoneAPIReadyErrorMessage err))) st)
         | Inr keystoneAPI \<Rightarrow>
             if deleting \<and> api_DeletionTimestamp keystoneAPI \<noteq> None
             then reconcileDeleteFinalizersOnly w keystoneAPI st
             else if deleting \<and> nothingRecorded
             then reconcileDelete w False (Some keystoneAPI) st
             else if \<not> api_IsReady keystoneAPI
             then ((RequeueAfterSeconds 5, None),
                   setConditions
                     (Conditions_Set
                        (FalseCondition KeystoneAPIReadyCondition RequestedReason SeverityInfo
                           KeystoneAPIReadyWaitingMessage)) st)
             else
               let st1 = setConditions
                           (MarkTrue KeystoneAPIReadyCondition KeystoneAPIReadyMessage) st
               in (case GetAdminServiceClient w of
                     (_, Some err) \<Rightarrow>
                       ((NoRequeue, Some err),
                        setConditions
                          (Conditions_Set
                             (FalseCondition AdminServiceClientReadyCondition ErrorReason
                                SeverityWarning (AdminServiceClientReadyErrorMessage err))) st1)
                   | (ctrlResult, None) \<Rightarrow>
                       if ctrlResult \<noteq> NoRequeue
                       then ((ctrlResult, None),
                             setConditions
                               (Conditions_Set
                                  (FalseCondition AdminServiceClientReadyCondition
                                     RequestedReason SeverityInfo
                                     AdminServiceClientReadyWaitingMessage)) st1)
                       else
                         let st2 = setConditions
                                     (MarkTrue AdminServiceClientReadyCondition
                                        AdminServiceClientReadyMessage) st1
                         in if deleting then reconcileDelete w True (Some keystoneAPI) st2
                            else reconcileNormal w keystoneAPI st2))"

text \<open>Lines 120-147: initialise the status on first sight, note the generation, add the own
  finalizer unless the instance is being deleted.\<close>

definition reconcileBody ::
  "'r world \<Rightarrow> 'r pass \<Rightarrow> (ctrl_Result \<times> error option) \<times> 'r pass" where
  "reconcileBody w st =
     (case Status_Conditions (inst st) of
        None \<Rightarrow>
          ((NoRequeue, None),
           st\<lparr>inst := (inst st)\<lparr>Status_Conditions := Some (Conditions_Init
              [UnknownCondition KeystoneAPIReadyCondition InitReason KeystoneAPIReadyInitMessage,
               UnknownCondition AdminServiceClientReadyCondition InitReason
                 AdminServiceClientReadyInitMessage,
               UnknownCondition KeystoneServiceOSEndpointsReadyCondition InitReason
                 KeystoneServiceOSEndpointsReadyInitMessage,
               UnknownCondition KeystoneServiceReadyCondition InitReason EmptyMessage])\<rparr>\<rparr>)
      | Some _ \<Rightarrow>
          let st1 = st\<lparr>inst := (inst st)\<lparr>Status_ObservedGeneration := Generation (inst st)\<rparr>\<rparr>;
              (added, fs) = AddFinalizer (GetFinalizer w) (Finalizers (inst st1))
          in if DeletionTimestamp (inst st1) = None \<and> added
             then ((NoRequeue, None), st1\<lparr>inst := (inst st1)\<lparr>Finalizers := fs\<rparr>\<rparr>)
             else reconcileDependencies w st1)"

text \<open>The deferred function (lines 92-115), up to the patch: roll the sub-conditions up into
  \<open>Ready\<close>.\<close>

definition updateReady :: "'r world \<Rightarrow> KeystoneEndpoint \<Rightarrow> KeystoneEndpoint" where
  "updateReady w i =
     (if AllSubConditionIsTrue (conds i)
      then i\<lparr>Status_Conditions := Some (MarkTrue ReadyCondition ReadyMessage (conds i))\<rparr>
      else
        let cs = MarkUnknown ReadyCondition InitReason ReadyInitMessage (conds i)
        in i\<lparr>Status_Conditions :=
               Some (case Conditions_Mirror (Relevance w) ReadyCondition cs of
                       None \<Rightarrow> cs
                     | Some c \<Rightarrow> Conditions_Set c cs)\<rparr>)"

text \<open>
  \<open>Reconcile\<close>.  The two exits before the deferred function is registered return no pass;
  every later exit runs the roll-up and the patch, whose error replaces the one of the body.
\<close>

definition Reconcile :: "'r world \<Rightarrow> (ctrl_Result \<times> error option) \<times> 'r pass option" where
  "Reconcile w =
     (case GetInstance w of
        Inl err \<Rightarrow>
          if IsNotFound err then ((NoRequeue, None), None) else ((NoRequeue, Some err), None)
      | Inr instance \<Rightarrow>
          (case NewHelper w of
             Some err \<Rightarrow> ((NoRequeue, Some err), None)
           | None \<Rightarrow>
               let ((result, err), st) =
                     reconcileBody w \<lparr>inst = instance, remote = Registry w, calls = []\<rparr>;
                   st' = st\<lparr>inst := updateReady w (inst st)\<rparr>
               in (case PatchInstance w (inst st') of
                     Some perr \<Rightarrow> ((result, Some perr), Some st')
                   | None \<Rightarrow> ((result, err), Some st'))))"

section \<open>A small world to run the definitions in\<close>

text \<open>
  An in-memory identity service, used to evaluate the definitions on concrete inputs: the
  registry is a list of endpoints, each under its availability; a query filters it, a
  create appends, an update rewrites the URL, a delete drops every match.  The three known
  endpoint types are their own availability.
\<close>

type_synonym registry = "(string \<times> remote_Endpoint) list"

definition sampleAvailability :: "string \<Rightarrow> error + string" where
  "sampleAvailability t =
     (if t = ''admin'' \<or> t = ''internal'' \<or> t = ''public'' then Inr t else Inl (Failure t))"

definition sampleGetEndpoints :: "registry \<Rightarrow> string \<Rightarrow> string \<Rightarrow> error + remote_Endpoint list" where
  "sampleGetEndpoints r sid t =
     Inr (map snd (filter (\<lambda>(a, e). a = t \<and> re_ServiceID e = sid) r))"

definition sampleCreateEndpoint :: "registry \<Rightarrow> os_Endpoint \<Rightarrow> (error + string) \<times> registry" where
  "sampleCreateEndpoint r ep =
     (Inr (''id-'' @ os_Availability ep),
      r @ [(os_Availability ep,
            \<lparr>re_ID = ''id-'' @ os_Availability ep, re_Name = os_Name ep,
             re_ServiceID = os_ServiceID ep, re_URL = os_URL ep\<rparr>)])"

definition sampleUpdateEndpoint ::
  "registry \<Rightarrow> os_Endpoint \<Rightarrow> string \<Rightarrow> (error + string) \<times> registry" where
  "sampleUpdateEndpoint r ep n =
     (Inr n, map (\<lambda>(a, e). if re_ID e = n then (a, e\<lparr>re_URL := os_URL ep\<rparr>) else (a, e)) r)"

definition sampleDeleteEndpoint :: "registry \<Rightarrow> os_Endpoint \<Rightarrow> error option \<times> registry" where
  "sampleDeleteEndpoint r ep =
     (None, filter (\<lambda>(a, e). \<not> (a = os_Availability ep \<and> re_ServiceID e = os_ServiceID ep)) r)"

text \<open>A ranking of conditions: a false one by its severity, then an unknown one, then a
  true one.\<close>

definition sampleRelevance :: "Condition \<Rightarrow> nat" where
  "sampleRelevance c =
     (case Status c of
        ConditionTrue \<Rightarrow> 0
      | ConditionUnknown \<Rightarrow> 1
      | ConditionFalse \<Rightarrow>
          (case Severity c of
             SeverityError \<Rightarrow> 4
           | SeverityWarning \<Rightarrow> 3
           | SeverityInfo \<Rightarrow> 2
           | SeverityNone \<Rightarrow> 2))"

definition sampleInstance :: KeystoneEndpoint where
  "sampleInstance =
     \<lparr>Name = ''ep'', Namespace = ''ns'', Generation = 1, DeletionTimestamp = None,
      Finalizers = [''fin''], Spec_ServiceName = ''svc'',
      Spec_Endpoints = [''public'' \<mapsto> ''http://a''],
      Status_Conditions = Some [], Status_ServiceID = ''sid'',
      Status_EndpointIDs = Map.empty, Status_Endpoints = [],
      Status_ObservedGeneration = 0\<rparr>"

definition sampleAPI :: KeystoneAPI where
  "sampleAPI = \<lparr>api_DeletionTimestamp = None, api_Finalizers = [], api_IsReady = True\<rparr>"

definition sampleService :: KeystoneService where
  "sampleService =
     \<lparr>svc_Finalizers = [], svc_IsReady = True, svc_ServiceID = ''sid'', svc_Conditions = []\<rparr>"

definition sampleWorld :: "registry world" where
  "sampleWorld =
     \<lparr>GetInstance = Inr sampleInstance, NewHelper = None, GetFinalizer = ''fin'',
      GetKeystoneAPI = Inr sampleAPI, GetAdminServiceClient = (NoRequeue, None),
      GetKeystoneServiceWithName = Inr sampleService,
      UpdateService = (\<lambda>_. None), UpdateAPI = (\<lambda>_. None), PatchInstance = (\<lambda>_. None),
      Relevance = sampleRelevance, GetAvailability = sampleAvailability, Registry = [],
      GetEndpoints = sampleGetEndpoints, CreateEndpoint = sampleCreateEndpoint,
      UpdateEndpoint = sampleUpdateEndpoint, DeleteEndpoint = sampleDeleteEndpoint,
      idsOrder = [], specOrder = [''public'']\<rparr>"

definition samplePass :: "registry pass" where
  "samplePass = \<lparr>inst = sampleInstance, remote = [], calls = []\<rparr>"

text \<open>A status that still records a type the spec no longer has.\<close>

definition staleInstance :: KeystoneEndpoint where
  "staleInstance = sampleInstance
     \<lparr>Status_EndpointIDs := [''internal'' \<mapsto> ''id-internal''],
      Status_Endpoints := [\<lparr>Interface = ''internal'', URL = ''http://i'', ID = ''id-internal''\<rparr>]\<rparr>"

definition staleRegistry :: registry where
  "staleRegistry = [(''internal'', \<lparr>re_ID = ''id-internal'', re_Name = ''svc'',
                      re_ServiceID = ''sid'', re_URL = ''http://i''\<rparr>)]"

definition stalePass :: "registry pass" where
  "stalePass = \<lparr>inst = staleInstance, remote = staleRegistry, calls = []\<rparr>"

definition staleWorld :: "registry world" where
  "staleWorld = sampleWorld\<lparr>idsOrder := [''internal'']\<rparr>"

section \<open>Vocabulary of the properties\<close>

text \<open>The calls a step or a pass added to the ones made before it.\<close>

definition issued :: "'r pass \<Rightarrow> 'r pass \<Rightarrow> event list" where
  "issued st st' = drop (length (calls st)) (calls st')"

text \<open>A create, update or delete, as opposed to a query.\<close>

fun is_mutation :: "os_call \<Rightarrow> bool" where
  "is_mutation (GetEndpointsCall _ _ _) = False"
| "is_mutation _ = True"

text \<open>A delete sent to the identity service.\<close>

fun is_delete :: "event \<Rightarrow> bool" where
  "is_delete (OsCall _ (DeleteEndpointCall _)) = True"
| "is_delete _ = False"

text \<open>The entries of the \<open>Endpoints\<close> list for one type.\<close>

definition entriesFor :: "string \<Rightarrow> KeystoneEndpoint \<Rightarrow> Endpoint list" where
  "entriesFor t i = filter (\<lambda>e. Interface e = t) (Status_Endpoints i)"

text \<open>The types whose registered endpoints were queried, in the order of the queries.\<close>

fun queried :: "event list \<Rightarrow> string list" where
  "queried [] = []"
| "queried (OsCall t (GetEndpointsCall _ _ _) # evs) = t # queried evs"
| "queried (_ # evs) = queried evs"

text \<open>The calls made for one type, in order.\<close>

fun callsFor :: "string \<Rightarrow> event list \<Rightarrow> os_call list" where
  "callsFor t [] = []"
| "callsFor t (OsCall t' c # evs) = (if t' = t then c # callsFor t evs else callsFor t evs)"
| "callsFor t (_ # evs) = callsFor t evs"

text \<open>More inputs for the small world: a status in step with the registry, a registry with
  two endpoints for one type, a spec with two types, and a spec with a type that has no
  availability.\<close>

definition publicEndpoint :: "string \<Rightarrow> remote_Endpoint" where
  "publicEndpoint n = \<lparr>re_ID = n, re_Name = ''svc'', re_ServiceID = ''sid'', re_URL = ''http://a''\<rparr>"

definition inSyncPass :: "registry pass" where
  "inSyncPass =
     \<lparr>inst = sampleInstance
        \<lparr>Status_EndpointIDs := [''public'' \<mapsto> ''id-public''],
         Status_Endpoints := [\<lparr>Interface = ''public'', URL = ''http://a'', ID = ''id-public''\<rparr>]\<rparr>,
      remote = [(''public'', publicEndpoint ''id-public'')], calls = []\<rparr>"

definition ambiguousPass :: "registry pass" where
  "ambiguousPass =
     \<lparr>inst = sampleInstance,
      remote = [(''public'', publicEndpoint ''id-1''), (''public'', publicEndpoint ''id-2'')],
      calls = []\<rparr>"

definition twoTypePass :: "registry pass" where
  "twoTypePass =
     \<lparr>inst = sampleInstance
        \<lparr>Spec_Endpoints := [''admin'' \<mapsto> ''http://b'', ''public'' \<mapsto> ''http://a'']\<rparr>,
      remote = [], calls = []\<rparr>"

definition misspeltPass :: "registry pass" where
  "misspeltPass =
     \<lparr>inst = sampleInstance
        \<lparr>Spec_Endpoints := [''bogus'' \<mapsto> ''http://x'', ''public'' \<mapsto> ''http://a'']\<rparr>,
      remote = [], calls = []\<rparr>"

text \<open>The types for which a delete was sent, in the order of the deletes.\<close>

fun deleted :: "event list \<Rightarrow> string list" where
  "deleted [] = []"
| "deleted (OsCall t (DeleteEndpointCall _) # evs) = t # deleted evs"
| "deleted (_ # evs) = deleted evs"

text \<open>What taking the marker off the service registration writes and returns, and the same
  for the identity-API registration.\<close>

definition serviceReleaseCalls :: "'r world \<Rightarrow> KeystoneEndpoint \<Rightarrow> event list" where
  "serviceReleaseCalls w i =
     (case GetKeystoneServiceWithName w of
        Inr ksSvc \<Rightarrow>
          if marker w i \<in> set (svc_Finalizers ksSvc)
          then [UpdateKeystoneService
                  (ksSvc\<lparr>svc_Finalizers := filter (\<lambda>x. x \<noteq> marker w i) (svc_Finalizers ksSvc)\<rparr>)]
          else []
      | Inl _ \<Rightarrow> [])"

definition serviceReleaseError :: "'r world \<Rightarrow> KeystoneEndpoint \<Rightarrow> error option" where
  "serviceReleaseError w i =
     (case GetKeystoneServiceWithName w of
        Inr ksSvc \<Rightarrow>
          if marker w i \<in> set (svc_Finalizers ksSvc)
          then UpdateService w
                 (ksSvc\<lparr>svc_Finalizers := filter (\<lambda>x. x \<noteq> marker w i) (svc_Finalizers ksSvc)\<rparr>)
          else None
      | Inl err \<Rightarrow> if IsNotFound err then None else Some err)"

definition apiReleaseCalls :: "'r world \<Rightarrow> KeystoneAPI option \<Rightarrow> KeystoneEndpoint \<Rightarrow> event list" where
  "apiReleaseCalls w keystoneAPI i =
     (case keystoneAPI of
        None \<Rightarrow> []
      | Some api \<Rightarrow>
          if marker w i \<in> set (api_Finalizers api)
          then [UpdateKeystoneAPI
                  (api\<lparr>api_Finalizers := filter (\<lambda>x. x \<noteq> marker w i) (api_Finalizers api)\<rparr>)]
          else [])"

definition apiReleaseError :: "'r world \<Rightarrow> KeystoneAPI option \<Rightarrow> KeystoneEndpoint \<Rightarrow> error option" where
  "apiReleaseError w keystoneAPI i =
     (case keystoneAPI of
        None \<Rightarrow> None
      | Some api \<Rightarrow>
          if marker w i \<in> set (api_Finalizers api)
          then UpdateAPI w
                 (api\<lparr>api_Finalizers := filter (\<lambda>x. x \<noteq> marker w i) (api_Finalizers api)\<rparr>)
          else None)"









text \<open>An instance whose last pass left every condition true, in a world where the service
  registration is gone, and in one where the identity API is gone.\<close>

definition readyInstance :: KeystoneEndpoint where
  "readyInstance = sampleInstance
     \<lparr>Status_ObservedGeneration := 1,
      Status_Conditions := Some
        [TrueCondition ReadyCondition ReadyMessage,
         TrueCondition KeystoneAPIReadyCondition KeystoneAPIReadyMessage,
         TrueCondition AdminServiceClientReadyCondition AdminServiceClientReadyMessage,
         TrueCondition KeystoneServiceOSEndpointsReadyCondition
           KeystoneServiceOSEndpointsReadyMessage,
         TrueCondition KeystoneServiceReadyCondition ReadyMessage]\<rparr>"

definition absentServiceWorld :: "registry world" where
  "absentServiceWorld = sampleWorld
     \<lparr>GetInstance := Inr readyInstance, GetKeystoneServiceWithName := Inl (NotFound ''svc'')\<rparr>"

definition absentAPIWorld :: "registry world" where
  "absentAPIWorld = sampleWorld
     \<lparr>GetInstance := Inr readyInstance, GetKeystoneAPI := Inl (NotFound ''keystone'')\<rparr>"



text \<open>An instance whose stored \<open>Ready\<close> is true although a sub-condition is false, in a world
  where the helper cannot be made.\<close>

definition unrolledInstance :: KeystoneEndpoint where
  "unrolledInstance = sampleInstance
     \<lparr>Status_Conditions := Some
        [TrueCondition ReadyCondition ReadyMessage,
         FalseCondition KeystoneAPIReadyCondition ErrorReason SeverityWarning
           KeystoneAPIReadyNotFoundMessage]\<rparr>"

definition helperFailsWorld :: "registry world" where
  "helperFailsWorld = sampleWorld
     \<lparr>GetInstance := Inr unrolledInstance, NewHelper := Some (Failure ''helper'')\<rparr>"

section \<open>Properties of the sync engine\<close>

subsection \<open>IndexFunc\<close>

lemma IndexFunc_neg: "IndexFunc xs f < 0 \<longleftrightarrow> (\<forall>x\<in>set xs. \<not> f x)"
  by (induction xs) (auto simp: Let_def)

lemma IndexFunc_found:
  "0 \<le> IndexFunc xs f \<Longrightarrow> nat (IndexFunc xs f) < length xs \<and> f (xs ! nat (IndexFunc xs f))"
proof (induction xs)
  case Nil
  then show ?case by simp
next
  case (Cons x xs)
  show ?case
  proof (cases "f x")
    case True
    then show ?thesis by simp
  next
    case False
    with Cons.prems have nn: "0 \<le> IndexFunc xs f"
      by (simp add: Let_def split: if_splits)
    with Cons.IH have "nat (IndexFunc xs f) < length xs \<and> f (xs ! nat (IndexFunc xs f))" by simp
    with False nn show ?thesis by (simp add: Let_def nat_add_distrib)
  qed
qed

subsection \<open>What one step leaves alone\<close>

lemma forgetEndpoint_fields [simp]:
  "Spec_Endpoints (forgetEndpoint t i) = Spec_Endpoints i"
  "Spec_ServiceName (forgetEndpoint t i) = Spec_ServiceName i"
  "Status_ServiceID (forgetEndpoint t i) = Status_ServiceID i"
  "Status_EndpointIDs (forgetEndpoint t i) = (Status_EndpointIDs i)(t := None)"
  by (simp_all add: forgetEndpoint_def Let_def)

lemma recordEndpoint_fields [simp]:
  "Spec_Endpoints (recordEndpoint t u n i) = Spec_Endpoints i"
  "Spec_ServiceName (recordEndpoint t u n i) = Spec_ServiceName i"
  "Status_ServiceID (recordEndpoint t u n i) = Status_ServiceID i"
  by (simp_all add: recordEndpoint_def Let_def)

lemma recordEndpoint_ids:
  "Status_EndpointIDs (recordEndpoint t u n i) =
     (if n \<noteq> '''' \<and> Spec_Endpoints i t \<noteq> None then (Status_EndpointIDs i)(t \<mapsto> n)
      else Status_EndpointIDs i)"
  by (simp add: recordEndpoint_def Let_def)

lemma retireOne_cases:
  assumes "retireOne w t st = (r, st')"
  obtains
    (kept) "Spec_Endpoints (inst st) t \<noteq> None" "r = None" "st' = st"
  | (unresolved) err where "Spec_Endpoints (inst st) t = None" "GetAvailability w t = Inl err"
      "r = Some err" "st' = st"
  | (failed) a e r' where "Spec_Endpoints (inst st) t = None" "GetAvailability w t = Inr a"
      "DeleteEndpoint w (remote st) (deleteRequest (inst st) a) = (Some e, r')"
      "r = Some e"
      "st' = st\<lparr>remote := r',
                 calls := calls st @ [OsCall t (DeleteEndpointCall (deleteRequest (inst st) a))]\<rparr>"
  | (retired) a r' where "Spec_Endpoints (inst st) t = None" "GetAvailability w t = Inr a"
      "DeleteEndpoint w (remote st) (deleteRequest (inst st) a) = (None, r')"
      "r = None"
      "st' = st\<lparr>remote := r',
                 calls := calls st @ [OsCall t (DeleteEndpointCall (deleteRequest (inst st) a))],
                 inst := forgetEndpoint t (inst st)\<rparr>"
  using assms unfolding retireOne_def Let_def
  by (auto split: if_splits sum.splits prod.splits option.splits)

lemma convergeOne_cases:
  assumes "convergeOne w t u st = (r, st')"
  obtains
    (unresolved) err where "GetAvailability w t = Inl err" "r = Some err" "st' = st"
  | (query_failed) a err where "GetAvailability w t = Inr a"
      "GetEndpoints w (remote st) (Status_ServiceID (inst st)) t = Inl err"
      "r = Some err"
      "st' = st\<lparr>calls := calls st @
          [OsCall t (GetEndpointsCall (Status_ServiceID (inst st)) t (Inl err))]\<rparr>"
  | (create_failed) a err r' where "GetAvailability w t = Inr a"
      "GetEndpoints w (remote st) (Status_ServiceID (inst st)) t = Inr []"
      "CreateEndpoint w (remote st)
         \<lparr>os_Name = Spec_ServiceName (inst st), os_ServiceID = Status_ServiceID (inst st),
          os_Availability = a, os_URL = u\<rparr> = (Inl err, r')"
      "r = Some err"
      "st' = st\<lparr>remote := r', calls := calls st @
          [OsCall t (GetEndpointsCall (Status_ServiceID (inst st)) t (Inr [])),
           OsCall t (CreateEndpointCall
             \<lparr>os_Name = Spec_ServiceName (inst st), os_ServiceID = Status_ServiceID (inst st),
              os_Availability = a, os_URL = u\<rparr>)]\<rparr>"
  | (created) a n r' where "GetAvailability w t = Inr a"
      "GetEndpoints w (remote st) (Status_ServiceID (inst st)) t = Inr []"
      "CreateEndpoint w (remote st)
         \<lparr>os_Name = Spec_ServiceName (inst st), os_ServiceID = Status_ServiceID (inst st),
          os_Availability = a, os_URL = u\<rparr> = (Inr n, r')"
      "r = None"
      "st' = st\<lparr>remote := r', calls := calls st @
          [OsCall t (GetEndpointsCall (Status_ServiceID (inst st)) t (Inr [])),
           OsCall t (CreateEndpointCall
             \<lparr>os_Name = Spec_ServiceName (inst st), os_ServiceID = Status_ServiceID (inst st),
              os_Availability = a, os_URL = u\<rparr>)],
          inst := recordEndpoint t u n (inst st)\<rparr>"
  | (in_sync) a e where "GetAvailability w t = Inr a"
      "GetEndpoints w (remote st) (Status_ServiceID (inst st)) t = Inr [e]"
      "u = re_URL e"
      "r = None"
      "st' = st\<lparr>calls := calls st @
          [OsCall t (GetEndpointsCall (Status_ServiceID (inst st)) t (Inr [e]))],
          inst := recordEndpoint t u (re_ID e) (inst st)\<rparr>"
  | (update_failed) a e err r' where "GetAvailability w t = Inr a"
      "GetEndpoints w (remote st) (Status_ServiceID (inst st)) t = Inr [e]"
      "u \<noteq> re_URL e"
      "UpdateEndpoint w (remote st)
         \<lparr>os_Name = re_Name e, os_ServiceID = re_ServiceID e,
          os_Availability = a, os_URL = u\<rparr> (re_ID e) = (Inl err, r')"
      "r = Some err"
      "st' = st\<lparr>remote := r', calls := calls st @
          [OsCall t (GetEndpointsCall (Status_ServiceID (inst st)) t (Inr [e])),
           OsCall t (UpdateEndpointCall
             \<lparr>os_Name = re_Name e, os_ServiceID = re_ServiceID e,
              os_Availability = a, os_URL = u\<rparr> (re_ID e))]\<rparr>"
  | (updated) a e n r' where "GetAvailability w t = Inr a"
      "GetEndpoints w (remote st) (Status_ServiceID (inst st)) t = Inr [e]"
      "u \<noteq> re_URL e"
      "UpdateEndpoint w (remote st)
         \<lparr>os_Name = re_Name e, os_ServiceID = re_ServiceID e,
          os_Availability = a, os_URL = u\<rparr> (re_ID e) = (Inr n, r')"
      "r = None"
      "st' = st\<lparr>remote := r', calls := calls st @
          [OsCall t (GetEndpointsCall (Status_ServiceID (inst st)) t (Inr [e])),
           OsCall t (UpdateEndpointCall
             \<lparr>os_Name = re_Name e, os_ServiceID = re_ServiceID e,
              os_Availability = a, os_URL = u\<rparr> (re_ID e))],
          inst := recordEndpoint t u n (inst st)\<rparr>"
  | (ambiguous) a e1 e2 es where "GetAvailability w t = Inr a"
      "GetEndpoints w (remote st) (Status_ServiceID (inst st)) t = Inr (e1 # e2 # es)"
      "r = Some (MultipleEndpoints (Spec_ServiceName (inst st)) t)"
      "st' = st\<lparr>calls := calls st @
          [OsCall t (GetEndpointsCall (Status_ServiceID (inst st)) t (Inr (e1 # e2 # es)))]\<rparr>"
  using assms unfolding convergeOne_def Let_def
  by (auto split: if_splits sum.splits prod.splits option.splits list.splits)

lemma retireOne_frame:
  assumes "retireOne w t st = (r, st')"
  shows "Spec_Endpoints (inst st') = Spec_Endpoints (inst st)"
    and "Spec_ServiceName (inst st') = Spec_ServiceName (inst st)"
    and "Status_ServiceID (inst st') = Status_ServiceID (inst st)"
  using assms by (cases rule: retireOne_cases; simp)+

lemma convergeOne_frame:
  assumes "convergeOne w t u st = (r, st')"
  shows "Spec_Endpoints (inst st') = Spec_Endpoints (inst st)"
    and "Spec_ServiceName (inst st') = Spec_ServiceName (inst st)"
    and "Status_ServiceID (inst st') = Status_ServiceID (inst st)"
  using assms by (cases rule: convergeOne_cases; simp)+

lemma retireLoop_frame:
  "retireLoop w ks st = (r, st') \<Longrightarrow>
     Spec_Endpoints (inst st') = Spec_Endpoints (inst st)
     \<and> Spec_ServiceName (inst st') = Spec_ServiceName (inst st)
     \<and> Status_ServiceID (inst st') = Status_ServiceID (inst st)"
proof (induction ks arbitrary: st)
  case Nil
  then show ?case by simp
next
  case (Cons k ks)
  show ?case
  proof (cases "Status_EndpointIDs (inst st) k = None")
    case True
    with Cons show ?thesis by simp
  next
    case False
    obtain r1 st1 where one: "retireOne w k st = (r1, st1)" by (cases "retireOne w k st")
    show ?thesis
    proof (cases r1)
      case None
      with Cons.prems False one have "retireLoop w ks st1 = (r, st')" by simp
      from Cons.IH [OF this] retireOne_frame [OF one] show ?thesis by simp
    next
      case (Some e)
      with Cons.prems False one have "st' = st1" by simp
      with retireOne_frame [OF one] show ?thesis by simp
    qed
  qed
qed

lemma convergeLoop_frame:
  "convergeLoop w ks st = (r, st') \<Longrightarrow>
     Spec_Endpoints (inst st') = Spec_Endpoints (inst st)
     \<and> Spec_ServiceName (inst st') = Spec_ServiceName (inst st)
     \<and> Status_ServiceID (inst st') = Status_ServiceID (inst st)"
proof (induction ks arbitrary: st)
  case Nil
  then show ?case by simp
next
  case (Cons k ks)
  show ?case
  proof (cases "Spec_Endpoints (inst st) k")
    case None
    with Cons show ?thesis by simp
  next
    case (Some u)
    obtain r1 st1 where one: "convergeOne w k u st = (r1, st1)" by (cases "convergeOne w k u st")
    show ?thesis
    proof (cases r1)
      case None
      with Cons.prems Some one have "convergeLoop w ks st1 = (r, st')" by simp
      from Cons.IH [OF this] convergeOne_frame [OF one] show ?thesis by simp
    next
      case (Some e)
      with Cons.prems \<open>Spec_Endpoints (inst st) k = Some u\<close> one have "st' = st1" by simp
      with convergeOne_frame [OF one] show ?thesis by simp
    qed
  qed
qed

text \<open>After a retire loop that went through, a key of the order that is still recorded is a
  key of the spec, and nothing was added.\<close>

lemma retireOne_ids:
  assumes "retireOne w t st = (None, st')"
  shows "Status_EndpointIDs (inst st') =
           (if Spec_Endpoints (inst st) t = None then (Status_EndpointIDs (inst st))(t := None)
            else Status_EndpointIDs (inst st))"
  using assms by (cases rule: retireOne_cases) auto

lemma retireLoop_ids:
  "retireLoop w ks st = (None, st') \<Longrightarrow>
     dom (Status_EndpointIDs (inst st')) \<subseteq> dom (Status_EndpointIDs (inst st))
     \<and> (\<forall>t\<in>set ks. t \<in> dom (Status_EndpointIDs (inst st')) \<longrightarrow> t \<in> dom (Spec_Endpoints (inst st)))"
proof (induction ks arbitrary: st)
  case Nil
  then show ?case by simp
next
  case (Cons k ks)
  show ?case
  proof (cases "Status_EndpointIDs (inst st) k = None")
    case True
    with Cons.prems have "retireLoop w ks st = (None, st')" by simp
    from Cons.IH [OF this] True show ?thesis by auto
  next
    case False
    obtain r1 st1 where one: "retireOne w k st = (r1, st1)" by (cases "retireOne w k st")
    with Cons.prems False have r1: "r1 = None" and rest: "retireLoop w ks st1 = (None, st')"
      by (auto split: option.splits)
    from one r1 have ids1: "Status_EndpointIDs (inst st1) =
           (if Spec_Endpoints (inst st) k = None then (Status_EndpointIDs (inst st))(k := None)
            else Status_EndpointIDs (inst st))"
      by (simp add: retireOne_ids)
    from retireOne_frame(1) [OF one] have sp: "Spec_Endpoints (inst st1) = Spec_Endpoints (inst st)" .
    from Cons.IH [OF rest] ids1 sp show ?thesis
      by (auto split: if_splits)
  qed
qed

lemma convergeOne_ids:
  assumes "convergeOne w t u st = (r, st')"
  shows "dom (Status_EndpointIDs (inst st')) \<subseteq>
           dom (Status_EndpointIDs (inst st)) \<union> dom (Spec_Endpoints (inst st))"
  using assms by (cases rule: convergeOne_cases) (auto simp: recordEndpoint_ids split: if_splits)

lemma convergeLoop_ids:
  "convergeLoop w ks st = (r, st') \<Longrightarrow>
     dom (Status_EndpointIDs (inst st')) \<subseteq>
       dom (Status_EndpointIDs (inst st)) \<union> dom (Spec_Endpoints (inst st))"
proof (induction ks arbitrary: st)
  case Nil
  then show ?case by simp
next
  case (Cons k ks)
  show ?case
  proof (cases "Spec_Endpoints (inst st) k")
    case None
    with Cons show ?thesis by simp
  next
    case (Some u)
    obtain r1 st1 where one: "convergeOne w k u st = (r1, st1)" by (cases "convergeOne w k u st")
    show ?thesis
    proof (cases r1)
      case None
      with Cons.prems Some one have "convergeLoop w ks st1 = (r, st')" by simp
      from Cons.IH [OF this] convergeOne_ids [OF one] convergeOne_frame(1) [OF one]
      show ?thesis by auto
    next
      case (Some e)
      with Cons.prems \<open>Spec_Endpoints (inst st) k = Some u\<close> one have "st' = st1" by simp
      with convergeOne_ids [OF one] show ?thesis by simp
    qed
  qed
qed

lemma reconcileEndpoints_ids_subset:
  assumes "reconcileEndpoints w st = (None, st')"
    and "enumerates (idsOrder w) (Status_EndpointIDs (inst st))"
  shows "dom (Status_EndpointIDs (inst st')) \<subseteq> dom (Spec_Endpoints (inst st'))"
proof -
  obtain st1 where retire: "retireLoop w (idsOrder w) st = (None, st1)"
    and converge: "convergeLoop w (specOrder w) st1 = (None, st')"
    using assms(1) unfolding reconcileEndpoints_def
    by (auto split: prod.splits option.splits)
  from assms(2) have cover: "set (idsOrder w) = dom (Status_EndpointIDs (inst st))"
    by (simp add: enumerates_def)
  from retireLoop_ids [OF retire] cover
  have "dom (Status_EndpointIDs (inst st1)) \<subseteq> dom (Spec_Endpoints (inst st))" by blast
  moreover from retireLoop_frame [OF retire]
  have "Spec_Endpoints (inst st1) = Spec_Endpoints (inst st)" by simp
  moreover from convergeLoop_frame [OF converge]
  have "Spec_Endpoints (inst st') = Spec_Endpoints (inst st1)" by simp
  ultimately show ?thesis using convergeLoop_ids [OF converge] by (simp add: subset_iff) blast
qed

lemmas sample_defs = sampleWorld_def sampleInstance_def sampleAvailability_def
  sampleGetEndpoints_def sampleCreateEndpoint_def sampleUpdateEndpoint_def
  sampleDeleteEndpoint_def samplePass_def sampleAPI_def sampleService_def

lemmas engine_defs = reconcileEndpoints_def retireOne_def convergeOne_def forgetEndpoint_def
  recordEndpoint_def getEndpointIdx_def deleteRequest_def Let_def

lemma stale_run:
  "reconcileEndpoints staleWorld stalePass =
     (None, \<lparr>inst = sampleInstance
               \<lparr>Status_EndpointIDs := [''public'' \<mapsto> ''id-public''],
                Status_Endpoints := [\<lparr>Interface = ''public'', URL = ''http://a'', ID = ''id-public''\<rparr>]\<rparr>,
             remote = [(''public'', \<lparr>re_ID = ''id-public'', re_Name = ''svc'',
                      re_ServiceID = ''sid'', re_URL = ''http://a''\<rparr>)],
             calls = [OsCall ''internal'' (DeleteEndpointCall
                        \<lparr>os_Name = ''svc'', os_ServiceID = ''sid'', os_Availability = ''internal'', os_URL = ''''\<rparr>),
                      OsCall ''public'' (GetEndpointsCall ''sid'' ''public'' (Inr [])),
                      OsCall ''public'' (CreateEndpointCall
                        \<lparr>os_Name = ''svc'', os_ServiceID = ''sid'', os_Availability = ''public'', os_URL = ''http://a''\<rparr>)]\<rparr>)"
  by (simp add: staleWorld_def stalePass_def staleInstance_def staleRegistry_def sample_defs engine_defs)

text \<open>
  Claim C9.  After a sync pass that returns no error, every key of \<open>EndpointIDs\<close> is a key
  of \<open>EndpointSpec\<close>.  The retire loop must have visited every recorded key, which is what
  \<open>enumerates\<close> says of the runtime's order.
\<close>

theorem EndpointIDs_subset:
  assumes "fst (reconcileEndpoints w st) = None"
    and "enumerates (idsOrder w) (Status_EndpointIDs (inst st))"
  shows "dom (Status_EndpointIDs (inst (snd (reconcileEndpoints w st))))
           \<subseteq> dom (Spec_Endpoints (inst (snd (reconcileEndpoints w st))))"
proof -
  from assms(1) have "reconcileEndpoints w st = (None, snd (reconcileEndpoints w st))"
    by (metis prod.collapse)
  from reconcileEndpoints_ids_subset [OF this assms(2)] show ?thesis .
qed

theorem EndpointIDs_subset_witness:
  "fst (reconcileEndpoints staleWorld stalePass) = None
   \<and> enumerates (idsOrder staleWorld) (Status_EndpointIDs (inst stalePass))
   \<and> dom (Status_EndpointIDs (inst (snd (reconcileEndpoints staleWorld stalePass))))
       \<subseteq> dom (Spec_Endpoints (inst (snd (reconcileEndpoints staleWorld stalePass))))"
proof -
  have ok: "fst (reconcileEndpoints staleWorld stalePass) = None"
    by (simp add: stale_run)
  have enum: "enumerates (idsOrder staleWorld) (Status_EndpointIDs (inst stalePass))"
    by (simp add: enumerates_def staleWorld_def stalePass_def staleInstance_def sample_defs)
  from EndpointIDs_subset [OF ok enum] ok enum show ?thesis by blast
qed

subsection \<open>Lists\<close>

lemma filter_remove_nth:
  assumes "n < length xs" and "\<not> P (xs ! n)"
  shows "filter P (take n xs @ drop (Suc n) xs) = filter P xs"
proof -
  from assms(1) have "xs = take n xs @ xs ! n # drop (Suc n) xs"
    by (rule id_take_nth_drop)
  then have "filter P xs = filter P (take n xs @ xs ! n # drop (Suc n) xs)" by simp
  with assms(2) show ?thesis by simp
qed

lemma distinct_map_remove_nth:
  assumes "distinct (map f xs)"
  shows "distinct (map f (take n xs @ drop (Suc n) xs))"
proof -
  have "map f (take n xs @ drop (Suc n) xs) = take n (map f xs) @ drop (Suc n) (map f xs)"
    by (simp add: take_map drop_map)
  moreover from assms have "set (take n (map f xs)) \<inter> set (drop (Suc n) (map f xs)) = {}"
    by (intro set_take_disj_set_drop_if_distinct) simp_all
  ultimately show ?thesis using assms by simp
qed

lemma removed_nth_absent:
  assumes "distinct (map f xs)" and "n < length xs"
  shows "f (xs ! n) \<notin> f ` set (take n xs @ drop (Suc n) xs)"
proof -
  from assms(2) have split: "xs = take n xs @ xs ! n # drop (Suc n) xs"
    by (rule id_take_nth_drop)
  have "distinct (map f (take n xs @ xs ! n # drop (Suc n) xs))"
    using assms(1) split by simp
  then show ?thesis by auto
qed

lemma filter_list_update_other:
  "\<not> P y \<Longrightarrow> n < length xs \<Longrightarrow> \<not> P (xs ! n) \<Longrightarrow> filter P (xs[n := y]) = filter P xs"
proof (induction xs arbitrary: n)
  case Nil
  then show ?case by simp
next
  case (Cons x xs)
  then show ?case by (cases n) auto
qed

subsection \<open>The two status updates, type by type\<close>

lemma getEndpointIdx_found:
  assumes "0 \<le> getEndpointIdx t eps"
  shows "nat (getEndpointIdx t eps) < length eps"
    and "Interface (eps ! nat (getEndpointIdx t eps)) = t"
  using IndexFunc_found [of eps "\<lambda>e. Interface e = t"] assms
  by (simp_all add: getEndpointIdx_def)

lemma getEndpointIdx_absent:
  "\<not> 0 \<le> getEndpointIdx t eps \<Longrightarrow> t \<notin> Interface ` set eps"
  using IndexFunc_neg [of eps "\<lambda>e. Interface e = t"]
  by (auto simp: getEndpointIdx_def)

lemma forgetEndpoint_other:
  assumes "t \<noteq> k"
  shows "Status_EndpointIDs (forgetEndpoint k i) t = Status_EndpointIDs i t"
    and "entriesFor t (forgetEndpoint k i) = entriesFor t i"
proof -
  show "Status_EndpointIDs (forgetEndpoint k i) t = Status_EndpointIDs i t"
    using assms by simp
  show "entriesFor t (forgetEndpoint k i) = entriesFor t i"
  proof (cases "0 \<le> getEndpointIdx k (Status_Endpoints i)")
    case True
    from getEndpointIdx_found [OF True] assms
    have "nat (getEndpointIdx k (Status_Endpoints i)) < length (Status_Endpoints i)"
      and "\<not> Interface (Status_Endpoints i ! nat (getEndpointIdx k (Status_Endpoints i))) = t"
      by auto
    from filter_remove_nth [where P = "\<lambda>e. Interface e = t", OF this] True show ?thesis
      by (simp add: entriesFor_def forgetEndpoint_def Let_def)
  next
    case False
    then show ?thesis by (simp add: entriesFor_def forgetEndpoint_def Let_def)
  qed
qed

lemma forgetEndpoint_distinct:
  "distinct (map Interface (Status_Endpoints i)) \<Longrightarrow>
   distinct (map Interface (Status_Endpoints (forgetEndpoint k i)))"
  by (simp add: forgetEndpoint_def Let_def distinct_map_remove_nth del: map_append)

lemma forgetEndpoint_gone:
  assumes "distinct (map Interface (Status_Endpoints i))"
  shows "entriesFor k (forgetEndpoint k i) = []"
proof (cases "0 \<le> getEndpointIdx k (Status_Endpoints i)")
  case True
  let ?n = "nat (getEndpointIdx k (Status_Endpoints i))"
  from getEndpointIdx_found [OF True]
  have n: "?n < length (Status_Endpoints i)" and at: "Interface (Status_Endpoints i ! ?n) = k"
    by auto
  from removed_nth_absent [OF assms n] at
  have "k \<notin> Interface ` set (take ?n (Status_Endpoints i) @ drop (Suc ?n) (Status_Endpoints i))"
    by simp
  then have "filter (\<lambda>e. Interface e = k)
               (take ?n (Status_Endpoints i) @ drop (Suc ?n) (Status_Endpoints i)) = []"
    by (auto simp: filter_empty_conv)
  with True show ?thesis by (simp add: entriesFor_def forgetEndpoint_def Let_def)
next
  case False
  from getEndpointIdx_absent [OF this] False show ?thesis
    by (auto simp: entriesFor_def forgetEndpoint_def Let_def filter_empty_conv)
qed

lemma recordEndpoint_other:
  assumes "t \<noteq> k"
  shows "Status_EndpointIDs (recordEndpoint k u n i) t = Status_EndpointIDs i t"
    and "entriesFor t (recordEndpoint k u n i) = entriesFor t i"
proof -
  show "Status_EndpointIDs (recordEndpoint k u n i) t = Status_EndpointIDs i t"
    using assms by (simp add: recordEndpoint_ids)
  show "entriesFor t (recordEndpoint k u n i) = entriesFor t i"
  proof (cases "0 \<le> getEndpointIdx k (Status_Endpoints i)")
    case True
    let ?n = "nat (getEndpointIdx k (Status_Endpoints i))"
    from getEndpointIdx_found [OF True] assms
    have n: "?n < length (Status_Endpoints i)"
      and old: "\<not> Interface (Status_Endpoints i ! ?n) = t" by auto
    from old have new: "\<not> Interface ((Status_Endpoints i ! ?n)\<lparr>URL := u, ID := n\<rparr>) = t" by simp
    from filter_list_update_other [of "\<lambda>e. Interface e = t", OF new n old] True
    show ?thesis by (simp add: entriesFor_def recordEndpoint_def Let_def)
  next
    case False
    with assms show ?thesis by (simp add: entriesFor_def recordEndpoint_def Let_def)
  qed
qed

subsection \<open>Calls issued by one step\<close>

lemma issued_same [simp]: "issued st st = []"
  by (simp add: issued_def)

lemma issued_append:
  "calls st' = calls st @ tr \<Longrightarrow> issued st st' = tr"
  by (simp add: issued_def)

lemma issued_trans:
  assumes "calls st1 = calls st @ issued st st1" and "calls st2 = calls st1 @ issued st1 st2"
  shows "calls st2 = calls st @ issued st st2"
    and "issued st st2 = issued st st1 @ issued st1 st2"
proof -
  from assms have eq: "calls st2 = calls st @ (issued st st1 @ issued st1 st2)" by simp
  from issued_append [OF eq] show "issued st st2 = issued st st1 @ issued st1 st2" .
  with eq show "calls st2 = calls st @ issued st st2" by simp
qed

lemma retireOne_issued:
  assumes "retireOne w k st = (r, st')"
  shows "calls st' = calls st @ issued st st'"
    and "\<forall>ev\<in>set (issued st st'). \<exists>ep. ev = OsCall k (DeleteEndpointCall ep)"
    and "issued st st' \<noteq> [] \<Longrightarrow> Spec_Endpoints (inst st) k = None"
  using assms by (cases rule: retireOne_cases; simp add: issued_def)+

lemma retireOne_other:
  assumes "retireOne w k st = (r, st')" and "t \<noteq> k"
  shows "Status_EndpointIDs (inst st') t = Status_EndpointIDs (inst st) t"
    and "entriesFor t (inst st') = entriesFor t (inst st)"
  using assms by (cases rule: retireOne_cases; simp add: forgetEndpoint_other)+

lemma retireOne_distinct:
  assumes "retireOne w k st = (r, st')"
    and "distinct (map Interface (Status_Endpoints (inst st)))"
  shows "distinct (map Interface (Status_Endpoints (inst st')))"
  using assms by (cases rule: retireOne_cases) (simp_all add: forgetEndpoint_distinct)

lemma retireOne_retired:
  assumes "retireOne w k st = (None, st')" and "Spec_Endpoints (inst st) k = None"
  shows "\<exists>a. GetAvailability w k = Inr a
           \<and> issued st st' = [OsCall k (DeleteEndpointCall
               \<lparr>os_Name = Spec_ServiceName (inst st), os_ServiceID = Status_ServiceID (inst st),
                os_Availability = a, os_URL = ''''\<rparr>)]"
    and "Status_EndpointIDs (inst st') k = None"
    and "distinct (map Interface (Status_Endpoints (inst st))) \<Longrightarrow> entriesFor k (inst st') = []"
proof -
  from assms show "\<exists>a. GetAvailability w k = Inr a
           \<and> issued st st' = [OsCall k (DeleteEndpointCall
               \<lparr>os_Name = Spec_ServiceName (inst st), os_ServiceID = Status_ServiceID (inst st),
                os_Availability = a, os_URL = ''''\<rparr>)]"
    by (cases rule: retireOne_cases) (simp_all add: issued_def deleteRequest_def)
  from assms show "Status_EndpointIDs (inst st') k = None"
    by (cases rule: retireOne_cases) simp_all
  from assms show "entriesFor k (inst st') = []"
    if "distinct (map Interface (Status_Endpoints (inst st)))"
    using that by (cases rule: retireOne_cases) (simp_all add: forgetEndpoint_gone)
qed

lemma convergeOne_issued:
  assumes "convergeOne w k u st = (r, st')"
  shows "calls st' = calls st @ issued st st'"
    and "\<forall>ev\<in>set (issued st st'). (\<exists>c. ev = OsCall k c) \<and> \<not> is_delete ev"
  using assms by (cases rule: convergeOne_cases; simp add: issued_def)+

lemma convergeOne_other:
  assumes "convergeOne w k u st = (r, st')" and "t \<noteq> k"
  shows "Status_EndpointIDs (inst st') t = Status_EndpointIDs (inst st) t"
    and "entriesFor t (inst st') = entriesFor t (inst st)"
  using assms by (cases rule: convergeOne_cases; simp add: recordEndpoint_other)+

lemma convergeOne_queried:
  assumes "convergeOne w k u st = (r, st')"
  shows "r = None \<Longrightarrow> queried (issued st st') = [k]"
    and "queried (issued st st') = [] \<or> queried (issued st st') = [k]"
  using assms by (cases rule: convergeOne_cases; simp add: issued_def)+

lemma convergeOne_ambiguous:
  assumes "convergeOne w k u st = (r, st')"
    and "OsCall t (GetEndpointsCall s t' (Inr es)) \<in> set (issued st st')"
    and "1 < length es"
  shows "r = Some (MultipleEndpoints (Spec_ServiceName (inst st)) k)
         \<and> issued st st' = [OsCall t (GetEndpointsCall s t' (Inr es))]
         \<and> inst st' = inst st \<and> remote st' = remote st \<and> t = k"
  using assms(1)
proof (cases rule: convergeOne_cases)
  case (unresolved err)
  with assms(2) show ?thesis by simp
next
  case (query_failed a err)
  with assms(2) show ?thesis by (simp add: issued_def)
next
  case (create_failed a err r')
  with assms(2,3) show ?thesis by (auto simp add: issued_def)
next
  case (created a n r')
  with assms(2,3) show ?thesis by (auto simp add: issued_def)
next
  case (in_sync a e)
  with assms(2,3) show ?thesis by (auto simp add: issued_def)
next
  case (update_failed a e err r')
  with assms(2,3) show ?thesis by (auto simp add: issued_def)
next
  case (updated a e n r')
  with assms(2,3) show ?thesis by (auto simp add: issued_def)
next
  case (ambiguous a e1 e2 es')
  with assms(2) show ?thesis by (simp add: issued_def)
qed

lemma convergeOne_in_sync:
  assumes "convergeOne w k u st = (r, st')"
    and "GetEndpoints w (remote st) (Status_ServiceID (inst st)) k = Inr [e]"
    and "u = re_URL e"
  shows "remote st' = remote st"
    and "\<forall>t c. OsCall t c \<in> set (issued st st') \<longrightarrow> \<not> is_mutation c"
  using assms by (cases rule: convergeOne_cases; auto simp add: issued_def)+

lemma callsFor_append [simp]: "callsFor t (a @ b) = callsFor t a @ callsFor t b"
  by (induction t a rule: callsFor.induct) simp_all

lemma callsFor_mem: "c \<in> set (callsFor t evs) \<longleftrightarrow> OsCall t c \<in> set evs"
  by (induction t evs rule: callsFor.induct) auto

lemma callsFor_none: "(\<forall>c. OsCall t c \<notin> set evs) \<Longrightarrow> callsFor t evs = []"
  using callsFor_mem [of _ t evs] by (cases "callsFor t evs") force+

lemma queried_append [simp]: "queried (a @ b) = queried a @ queried b"
  by (induction a rule: queried.induct) simp_all

subsection \<open>The retire loop\<close>

lemma retireLoop_issued:
  "retireLoop w ks st = (r, st') \<Longrightarrow>
     calls st' = calls st @ issued st st'
     \<and> (\<forall>ev\<in>set (issued st st'). \<exists>k ep. ev = OsCall k (DeleteEndpointCall ep) \<and> k \<in> set ks
                                          \<and> Spec_Endpoints (inst st) k = None)"
proof (induction ks arbitrary: st)
  case Nil
  then show ?case by simp
next
  case (Cons k ks)
  show ?case
  proof (cases "Status_EndpointIDs (inst st) k = None")
    case True
    with Cons.prems have "retireLoop w ks st = (r, st')" by simp
    from Cons.IH [OF this] show ?thesis by auto
  next
    case False
    obtain r1 st1 where one: "retireOne w k st = (r1, st1)" by (cases "retireOne w k st")
    note one_calls = retireOne_issued [OF one]
    show ?thesis
    proof (cases r1)
      case None
      with Cons.prems False one have rest: "retireLoop w ks st1 = (r, st')" by simp
      from Cons.IH [OF rest] have ext: "calls st' = calls st1 @ issued st1 st'"
        and tags: "\<forall>ev\<in>set (issued st1 st'). \<exists>k ep. ev = OsCall k (DeleteEndpointCall ep) \<and> k \<in> set ks
                                           \<and> Spec_Endpoints (inst st1) k = None"
        by auto
      from one_calls(2,3) have first: "\<forall>ev\<in>set (issued st st1). \<exists>k' ep.
          ev = OsCall k' (DeleteEndpointCall ep) \<and> k' \<in> set (k # ks) \<and> Spec_Endpoints (inst st) k' = None"
        by fastforce
      from tags retireOne_frame(1) [OF one] have later: "\<forall>ev\<in>set (issued st1 st'). \<exists>k' ep.
          ev = OsCall k' (DeleteEndpointCall ep) \<and> k' \<in> set (k # ks) \<and> Spec_Endpoints (inst st) k' = None"
        by fastforce
      from issued_trans [OF one_calls(1) ext] first later show ?thesis by auto
    next
      case (Some e)
      with Cons.prems False one have "st' = st1" by simp
      moreover from one_calls(2,3) have "\<forall>ev\<in>set (issued st st1). \<exists>k' ep.
          ev = OsCall k' (DeleteEndpointCall ep) \<and> k' \<in> set (k # ks) \<and> Spec_Endpoints (inst st) k' = None"
        by fastforce
      ultimately show ?thesis using one_calls(1) by simp
    qed
  qed
qed

lemma retireLoop_other:
  "retireLoop w ks st = (r, st') \<Longrightarrow> t \<notin> set ks \<or> Spec_Endpoints (inst st) t \<noteq> None \<Longrightarrow>
     Status_EndpointIDs (inst st') t = Status_EndpointIDs (inst st) t
     \<and> entriesFor t (inst st') = entriesFor t (inst st)"
proof (induction ks arbitrary: st)
  case Nil
  then show ?case by simp
next
  case (Cons k ks)
  show ?case
  proof (cases "Status_EndpointIDs (inst st) k = None")
    case True
    with Cons.prems have "retireLoop w ks st = (r, st')" by simp
    from Cons.IH [OF this] Cons.prems(2) show ?thesis by auto
  next
    case False
    obtain r1 st1 where one: "retireOne w k st = (r1, st1)" by (cases "retireOne w k st")
    have same1: "Status_EndpointIDs (inst st1) t = Status_EndpointIDs (inst st) t
                 \<and> entriesFor t (inst st1) = entriesFor t (inst st)"
    proof (cases "t = k")
      case True
      with Cons.prems(2) have "Spec_Endpoints (inst st) k \<noteq> None" by auto
      with one have "st1 = st" by (cases rule: retireOne_cases) simp_all
      then show ?thesis by simp
    next
      case False
      from retireOne_other [OF one False] show ?thesis by simp
    qed
    show ?thesis
    proof (cases r1)
      case None
      with Cons.prems(1) False one have rest: "retireLoop w ks st1 = (r, st')" by simp
      from Cons.prems(2) retireOne_frame(1) [OF one]
      have "t \<notin> set ks \<or> Spec_Endpoints (inst st1) t \<noteq> None" by auto
      from Cons.IH [OF rest this] same1 show ?thesis by simp
    next
      case (Some e)
      with Cons.prems(1) False one have "st' = st1" by simp
      with same1 show ?thesis by simp
    qed
  qed
qed

lemma retireLoop_distinct:
  "retireLoop w ks st = (r, st') \<Longrightarrow> distinct (map Interface (Status_Endpoints (inst st))) \<Longrightarrow>
     distinct (map Interface (Status_Endpoints (inst st')))"
proof (induction ks arbitrary: st)
  case Nil
  then show ?case by simp
next
  case (Cons k ks)
  show ?case
  proof (cases "Status_EndpointIDs (inst st) k = None")
    case True
    with Cons show ?thesis by simp
  next
    case False
    obtain r1 st1 where one: "retireOne w k st = (r1, st1)" by (cases "retireOne w k st")
    from retireOne_distinct [OF one Cons.prems(2)]
    have d1: "distinct (map Interface (Status_Endpoints (inst st1)))" .
    show ?thesis
    proof (cases r1)
      case None
      with Cons.prems(1) False one have "retireLoop w ks st1 = (r, st')" by simp
      from Cons.IH [OF this d1] show ?thesis .
    next
      case (Some e)
      with Cons.prems(1) False one have "st' = st1" by simp
      with d1 show ?thesis by simp
    qed
  qed
qed

lemma retireLoop_retired:
  "retireLoop w ks st = (None, st') \<Longrightarrow> distinct ks \<Longrightarrow>
   distinct (map Interface (Status_Endpoints (inst st))) \<Longrightarrow>
   t \<in> set ks \<Longrightarrow> Status_EndpointIDs (inst st) t \<noteq> None \<Longrightarrow> Spec_Endpoints (inst st) t = None \<Longrightarrow>
     (\<exists>a. GetAvailability w t = Inr a
         \<and> callsFor t (issued st st') = [DeleteEndpointCall
             \<lparr>os_Name = Spec_ServiceName (inst st), os_ServiceID = Status_ServiceID (inst st),
              os_Availability = a, os_URL = ''''\<rparr>])
     \<and> Status_EndpointIDs (inst st') t = None
     \<and> entriesFor t (inst st') = []"
proof (induction ks arbitrary: st)
  case Nil
  then show ?case by simp
next
  case (Cons k ks)
  from Cons.prems(2) have k_fresh: "k \<notin> set ks" and ks: "distinct ks" by simp_all
  show ?case
  proof (cases "Status_EndpointIDs (inst st) k = None")
    case True
    with Cons.prems(1) have rest: "retireLoop w ks st = (None, st')" by simp
    from True Cons.prems(4,5) have "t \<in> set ks" by auto
    from Cons.IH [OF rest ks Cons.prems(3) this Cons.prems(5,6)] show ?thesis .
  next
    case False
    obtain r1 st1 where one: "retireOne w k st = (r1, st1)" by (cases "retireOne w k st")
    with Cons.prems(1) False have r1: "r1 = None" and rest: "retireLoop w ks st1 = (None, st')"
      by (auto split: option.splits)
    note one_calls = retireOne_issued [OF one]
    note rest_calls = retireLoop_issued [OF rest]
    from rest_calls have ext: "calls st' = calls st1 @ issued st1 st'" ..
    from issued_trans(2) [OF one_calls(1) ext]
    have split: "issued st st' = issued st st1 @ issued st1 st'" .
    from retireOne_distinct [OF one Cons.prems(3)]
    have d1: "distinct (map Interface (Status_Endpoints (inst st1)))" .
    show ?thesis
    proof (cases "t = k")
      case True
      from one r1 have one': "retireOne w k st = (None, st1)" by simp
      from Cons.prems(6) True have nospec: "Spec_Endpoints (inst st) k = None" by simp
      from retireOne_retired [OF one' nospec] Cons.prems(3)
      obtain a where avail: "GetAvailability w k = Inr a"
        and first: "issued st st1 = [OsCall k (DeleteEndpointCall
             \<lparr>os_Name = Spec_ServiceName (inst st), os_ServiceID = Status_ServiceID (inst st),
              os_Availability = a, os_URL = ''''\<rparr>)]"
        and ids1: "Status_EndpointIDs (inst st1) k = None"
        and eps1: "entriesFor k (inst st1) = []" by auto
      from rest_calls k_fresh have "\<forall>c. OsCall k c \<notin> set (issued st1 st')" by auto
      then have "callsFor k (issued st1 st') = []" by (rule callsFor_none)
      with split first avail have "GetAvailability w k = Inr a
         \<and> callsFor k (issued st st') = [DeleteEndpointCall
             \<lparr>os_Name = Spec_ServiceName (inst st), os_ServiceID = Status_ServiceID (inst st),
              os_Availability = a, os_URL = ''''\<rparr>]" by simp
      moreover from retireLoop_other [OF rest, of k] k_fresh ids1 eps1
      have "Status_EndpointIDs (inst st') k = None \<and> entriesFor k (inst st') = []" by simp
      ultimately show ?thesis using True by auto
    next
      case False
      with Cons.prems(4) have t_in: "t \<in> set ks" by simp
      from retireOne_other [OF one False] Cons.prems(5)
      have ids1: "Status_EndpointIDs (inst st1) t \<noteq> None" by simp
      from retireOne_frame(1) [OF one] Cons.prems(6)
      have spec1: "Spec_Endpoints (inst st1) t = None" by simp
      from one_calls(2) False have "\<forall>c. OsCall t c \<notin> set (issued st st1)" by auto
      then have "callsFor t (issued st st1) = []" by (rule callsFor_none)
      with split Cons.IH [OF rest ks d1 t_in ids1 spec1] retireOne_frame(2,3) [OF one]
      show ?thesis by simp
    qed
  qed
qed

subsection \<open>The converge loop\<close>

lemma convergeLoop_issued:
  "convergeLoop w ks st = (r, st') \<Longrightarrow>
     calls st' = calls st @ issued st st'
     \<and> (\<forall>ev\<in>set (issued st st').
           (\<exists>k c. ev = OsCall k c \<and> k \<in> set ks \<and> Spec_Endpoints (inst st) k \<noteq> None)
           \<and> \<not> is_delete ev)"
proof (induction ks arbitrary: st)
  case Nil
  then show ?case by simp
next
  case (Cons k ks)
  show ?case
  proof (cases "Spec_Endpoints (inst st) k")
    case None
    with Cons.prems have "convergeLoop w ks st = (r, st')" by simp
    from Cons.IH [OF this] show ?thesis by auto
  next
    case (Some u)
    obtain r1 st1 where one: "convergeOne w k u st = (r1, st1)" by (cases "convergeOne w k u st")
    note one_calls = convergeOne_issued [OF one]
    from one_calls(2) Some have first: "\<forall>ev\<in>set (issued st st1).
        (\<exists>k' c. ev = OsCall k' c \<and> k' \<in> set (k # ks) \<and> Spec_Endpoints (inst st) k' \<noteq> None)
        \<and> \<not> is_delete ev"
      by fastforce
    show ?thesis
    proof (cases r1)
      case None
      with Cons.prems Some one have rest: "convergeLoop w ks st1 = (r, st')" by simp
      from Cons.IH [OF rest] have ext: "calls st' = calls st1 @ issued st1 st'"
        and tags: "\<forall>ev\<in>set (issued st1 st').
           (\<exists>k c. ev = OsCall k c \<and> k \<in> set ks \<and> Spec_Endpoints (inst st1) k \<noteq> None)
           \<and> \<not> is_delete ev"
        by auto
      from tags convergeOne_frame(1) [OF one] have later: "\<forall>ev\<in>set (issued st1 st').
          (\<exists>k' c. ev = OsCall k' c \<and> k' \<in> set (k # ks) \<and> Spec_Endpoints (inst st) k' \<noteq> None)
          \<and> \<not> is_delete ev"
        by fastforce
      from issued_trans [OF one_calls(1) ext] first later show ?thesis by auto
    next
      case (Some e)
      with Cons.prems \<open>Spec_Endpoints (inst st) k = Some u\<close> one have "st' = st1" by simp
      with one_calls(1) first show ?thesis by simp
    qed
  qed
qed

lemma convergeLoop_other:
  "convergeLoop w ks st = (r, st') \<Longrightarrow> t \<notin> set ks \<or> Spec_Endpoints (inst st) t = None \<Longrightarrow>
     Status_EndpointIDs (inst st') t = Status_EndpointIDs (inst st) t
     \<and> entriesFor t (inst st') = entriesFor t (inst st)"
proof (induction ks arbitrary: st)
  case Nil
  then show ?case by simp
next
  case (Cons k ks)
  show ?case
  proof (cases "Spec_Endpoints (inst st) k")
    case None
    with Cons.prems have "convergeLoop w ks st = (r, st')" by simp
    from Cons.IH [OF this] Cons.prems(2) show ?thesis by auto
  next
    case (Some u)
    with Cons.prems(2) have tk: "t \<noteq> k" by auto
    obtain r1 st1 where one: "convergeOne w k u st = (r1, st1)" by (cases "convergeOne w k u st")
    note same1 = convergeOne_other [OF one tk]
    show ?thesis
    proof (cases r1)
      case None
      with Cons.prems(1) Some one have rest: "convergeLoop w ks st1 = (r, st')" by simp
      from Cons.prems(2) convergeOne_frame(1) [OF one]
      have "t \<notin> set ks \<or> Spec_Endpoints (inst st1) t = None" by auto
      from Cons.IH [OF rest this] same1 show ?thesis by simp
    next
      case (Some e)
      with Cons.prems(1) \<open>Spec_Endpoints (inst st) k = Some u\<close> one have "st' = st1" by simp
      with same1 show ?thesis by simp
    qed
  qed
qed

lemma convergeLoop_append:
  "convergeLoop w (a @ b) st =
     (case convergeLoop w a st of
        (Some e, s) \<Rightarrow> (Some e, s)
      | (None, s) \<Rightarrow> convergeLoop w b s)"
  by (induction a arbitrary: st) (auto split: option.splits prod.splits)

lemma convergeLoop_queried:
  "convergeLoop w ks st = (None, st') \<Longrightarrow>
     queried (issued st st') = filter (\<lambda>k. Spec_Endpoints (inst st) k \<noteq> None) ks"
proof (induction ks arbitrary: st)
  case Nil
  then show ?case by simp
next
  case (Cons k ks)
  show ?case
  proof (cases "Spec_Endpoints (inst st) k")
    case None
    with Cons.prems have "convergeLoop w ks st = (None, st')" by simp
    from Cons.IH [OF this] None show ?thesis by simp
  next
    case (Some u)
    obtain r1 st1 where one: "convergeOne w k u st = (r1, st1)" by (cases "convergeOne w k u st")
    with Cons.prems Some have r1: "r1 = None" and rest: "convergeLoop w ks st1 = (None, st')"
      by (auto split: option.splits)
    from convergeLoop_issued [OF rest] have ext: "calls st' = calls st1 @ issued st1 st'" ..
    from issued_trans(2) [OF convergeOne_issued(1) [OF one] ext]
    have split: "issued st st' = issued st st1 @ issued st1 st'" .
    from convergeOne_queried(1) [OF one r1] have q1: "queried (issued st st1) = [k]" .
    from convergeOne_frame(1) [OF one]
    have "Spec_Endpoints (inst st1) = Spec_Endpoints (inst st)" .
    with Cons.IH [OF rest] split q1 Some show ?thesis by simp
  qed
qed

lemma convergeLoop_in_sync:
  "convergeLoop w ks st = (r, st') \<Longrightarrow>
   (\<forall>k\<in>set ks. \<forall>u. Spec_Endpoints (inst st) k = Some u \<longrightarrow>
      (\<exists>e. GetEndpoints w (remote st) (Status_ServiceID (inst st)) k = Inr [e] \<and> u = re_URL e)) \<Longrightarrow>
     remote st' = remote st
     \<and> (\<forall>t c. OsCall t c \<in> set (issued st st') \<longrightarrow> \<not> is_mutation c)"
proof (induction ks arbitrary: st)
  case Nil
  then show ?case by simp
next
  case (Cons k ks)
  show ?case
  proof (cases "Spec_Endpoints (inst st) k")
    case None
    with Cons.prems have "convergeLoop w ks st = (r, st')" by simp
    from Cons.IH [OF this] Cons.prems(2) show ?thesis by simp
  next
    case (Some u)
    obtain r1 st1 where one: "convergeOne w k u st = (r1, st1)" by (cases "convergeOne w k u st")
    from Cons.prems(2) Some obtain e
      where q: "GetEndpoints w (remote st) (Status_ServiceID (inst st)) k = Inr [e]"
        and u: "u = re_URL e" by auto
    note quiet1 = convergeOne_in_sync [OF one q u]
    show ?thesis
    proof (cases r1)
      case None
      with Cons.prems(1) Some one have rest: "convergeLoop w ks st1 = (r, st')" by simp
      from convergeOne_frame [OF one] quiet1(1) Cons.prems(2)
      have "\<forall>k\<in>set ks. \<forall>u. Spec_Endpoints (inst st1) k = Some u \<longrightarrow>
              (\<exists>e. GetEndpoints w (remote st1) (Status_ServiceID (inst st1)) k = Inr [e]
                    \<and> u = re_URL e)"
        by simp
      from Cons.IH [OF rest this]
      have r': "remote st' = remote st1"
        and quiet': "\<forall>t c. OsCall t c \<in> set (issued st1 st') \<longrightarrow> \<not> is_mutation c" by auto
      from convergeLoop_issued [OF rest] have ext: "calls st' = calls st1 @ issued st1 st'" ..
      from issued_trans(2) [OF convergeOne_issued(1) [OF one] ext]
      have "issued st st' = issued st st1 @ issued st1 st'" .
      with quiet1 r' quiet' show ?thesis by auto
    next
      case (Some e')
      with Cons.prems(1) \<open>Spec_Endpoints (inst st) k = Some u\<close> one have "st' = st1" by simp
      with quiet1 show ?thesis by simp
    qed
  qed
qed

lemma convergeLoop_ambiguous:
  "convergeLoop w ks st = (r, st') \<Longrightarrow> distinct ks \<Longrightarrow>
   OsCall t (GetEndpointsCall s t' (Inr es)) \<in> set (issued st st') \<Longrightarrow> 1 < length es \<Longrightarrow>
     r = Some (MultipleEndpoints (Spec_ServiceName (inst st)) t)
     \<and> (\<forall>c. OsCall t c \<in> set (issued st st') \<longrightarrow> \<not> is_mutation c)
     \<and> Status_EndpointIDs (inst st') t = Status_EndpointIDs (inst st) t
     \<and> entriesFor t (inst st') = entriesFor t (inst st)"
proof (induction ks arbitrary: st)
  case Nil
  then show ?case by simp
next
  case (Cons k ks)
  from Cons.prems(2) have k_fresh: "k \<notin> set ks" and ks: "distinct ks" by simp_all
  show ?case
  proof (cases "Spec_Endpoints (inst st) k")
    case None
    with Cons.prems(1) have "convergeLoop w ks st = (r, st')" by simp
    from Cons.IH [OF this ks Cons.prems(3,4)] show ?thesis .
  next
    case (Some u)
    obtain r1 st1 where one: "convergeOne w k u st = (r1, st1)" by (cases "convergeOne w k u st")
    note one_calls = convergeOne_issued [OF one]
    show ?thesis
    proof (cases r1)
      case (Some e)
      with Cons.prems(1) \<open>Spec_Endpoints (inst st) k = Some u\<close> one have st': "st' = st1" by simp
      from Cons.prems(3) st'
      have here: "OsCall t (GetEndpointsCall s t' (Inr es)) \<in> set (issued st st1)" by simp
      from convergeOne_ambiguous [OF one here Cons.prems(4)]
      have r1': "r1 = Some (MultipleEndpoints (Spec_ServiceName (inst st)) k)"
        and only: "issued st st1 = [OsCall t (GetEndpointsCall s t' (Inr es))]"
        and same: "inst st1 = inst st" and tk: "t = k" by simp_all
      from Cons.prems(1) \<open>Spec_Endpoints (inst st) k = Some u\<close> one Some
      have "r = r1" by simp
      with r1' only same tk st' show ?thesis by auto
    next
      case None
      with Cons.prems(1) Some one have rest: "convergeLoop w ks st1 = (r, st')" by simp
      note rest_calls = convergeLoop_issued [OF rest]
      from rest_calls have ext: "calls st' = calls st1 @ issued st1 st'" ..
      from issued_trans(2) [OF one_calls(1) ext]
      have split: "issued st st' = issued st st1 @ issued st1 st'" .
      have not_first: "OsCall t (GetEndpointsCall s t' (Inr es)) \<notin> set (issued st st1)"
      proof
        assume "OsCall t (GetEndpointsCall s t' (Inr es)) \<in> set (issued st st1)"
        from convergeOne_ambiguous [OF one this Cons.prems(4)] None show False by simp
      qed
      with split Cons.prems(3)
      have later: "OsCall t (GetEndpointsCall s t' (Inr es)) \<in> set (issued st1 st')" by simp
      with rest_calls have t_in: "t \<in> set ks" by auto
      with k_fresh have tk: "t \<noteq> k" by auto
      from one_calls(2) tk have none1: "\<forall>c. OsCall t c \<notin> set (issued st st1)" by auto
      from Cons.IH [OF rest ks later Cons.prems(4)] convergeOne_frame(2) [OF one]
        convergeOne_other [OF one tk] split none1
      show ?thesis by auto
    qed
  qed
qed

lemma queried_deletes: "\<forall>ev\<in>set evs. is_delete ev \<Longrightarrow> queried evs = []"
  by (induction evs rule: queried.induct) simp_all

lemma retireLoop_noop:
  "dom (Status_EndpointIDs (inst st)) \<subseteq> dom (Spec_Endpoints (inst st)) \<Longrightarrow>
     retireLoop w ks st = (None, st)"
proof (induction ks)
  case Nil
  show ?case by simp
next
  case (Cons k ks)
  show ?case
  proof (cases "Status_EndpointIDs (inst st) k = None")
    case True
    with Cons show ?thesis by simp
  next
    case False
    with Cons.prems have "Spec_Endpoints (inst st) k \<noteq> None" by auto
    then have "retireOne w k st = (None, st)" by (simp add: retireOne_def)
    with False Cons show ?thesis by simp
  qed
qed

text \<open>The pass is the retire loop followed, if it went through, by the converge loop.\<close>

lemma reconcileEndpoints_phases:
  obtains (retire_failed) e where "fst (retireLoop w (idsOrder w) st) = Some e"
      "reconcileEndpoints w st = retireLoop w (idsOrder w) st"
  | (converged) "fst (retireLoop w (idsOrder w) st) = None"
      "reconcileEndpoints w st =
         convergeLoop w (specOrder w) (snd (retireLoop w (idsOrder w) st))"
  by (cases "retireLoop w (idsOrder w) st"; cases "fst (retireLoop w (idsOrder w) st)")
     (auto simp: reconcileEndpoints_def)

lemma reconcileEndpoints_issued:
  fixes w :: "'r world" and st :: "'r pass"
  defines "st1 \<equiv> snd (retireLoop w (idsOrder w) st)"
  defines "st' \<equiv> snd (reconcileEndpoints w st)"
  shows "calls st1 = calls st @ issued st st1"
    and "calls st' = calls st1 @ issued st1 st'"
    and "issued st st' = issued st st1 @ issued st1 st'"
    and "\<forall>ev\<in>set (issued st st1). \<exists>k ep. ev = OsCall k (DeleteEndpointCall ep)
           \<and> k \<in> set (idsOrder w) \<and> Spec_Endpoints (inst st) k = None"
    and "\<forall>ev\<in>set (issued st1 st').
           (\<exists>k c. ev = OsCall k c \<and> k \<in> set (specOrder w) \<and> Spec_Endpoints (inst st) k \<noteq> None)
           \<and> \<not> is_delete ev"
proof -
  obtain r1 where retire: "retireLoop w (idsOrder w) st = (r1, st1)"
    by (simp add: st1_def) (metis prod.collapse)
  note r_calls = retireLoop_issued [OF retire]
  from r_calls show a: "calls st1 = calls st @ issued st st1" ..
  from r_calls show "\<forall>ev\<in>set (issued st st1). \<exists>k ep. ev = OsCall k (DeleteEndpointCall ep)
           \<and> k \<in> set (idsOrder w) \<and> Spec_Endpoints (inst st) k = None" ..
  have b: "calls st' = calls st1 @ issued st1 st'
      \<and> (\<forall>ev\<in>set (issued st1 st').
           (\<exists>k c. ev = OsCall k c \<and> k \<in> set (specOrder w) \<and> Spec_Endpoints (inst st) k \<noteq> None)
           \<and> \<not> is_delete ev)"
  proof (cases rule: reconcileEndpoints_phases [of w st])
    case (retire_failed e)
    then have "st' = st1" by (simp add: st'_def st1_def)
    then show ?thesis by simp
  next
    case converged
    then obtain r where conv: "convergeLoop w (specOrder w) st1 = (r, st')"
      by (simp add: st'_def st1_def) (metis prod.collapse)
    from convergeLoop_issued [OF conv] retireLoop_frame [OF retire] show ?thesis by simp
  qed
  then show c: "calls st' = calls st1 @ issued st1 st'" ..
  from b show "\<forall>ev\<in>set (issued st1 st').
           (\<exists>k c. ev = OsCall k c \<and> k \<in> set (specOrder w) \<and> Spec_Endpoints (inst st) k \<noteq> None)
           \<and> \<not> is_delete ev" ..
  from issued_trans(2) [OF a c] show "issued st st' = issued st st1 @ issued st1 st'" .
qed

text \<open>
  Claim C1.  When \<open>EndpointIDs\<close> has exactly the keys of the spec and the registry answers
  the query for every type of the spec with exactly one endpoint whose URL is the desired
  one, a pass of the sync engine issues no create, update or delete call: every call it
  makes is a query, and the registry is left as it was.
\<close>

theorem in_sync_pass_is_quiet:
  assumes "dom (Status_EndpointIDs (inst st)) = dom (Spec_Endpoints (inst st))"
    and "\<forall>t u. Spec_Endpoints (inst st) t = Some u \<longrightarrow>
           (\<exists>e. GetEndpoints w (remote st) (Status_ServiceID (inst st)) t = Inr [e]
                 \<and> re_URL e = u)"
  shows "(\<forall>t c. OsCall t c \<in> set (issued st (snd (reconcileEndpoints w st))) \<longrightarrow> \<not> is_mutation c)
         \<and> remote (snd (reconcileEndpoints w st)) = remote st"
proof -
  from assms(1) have "retireLoop w (idsOrder w) st = (None, st)"
    by (intro retireLoop_noop) simp
  then have run: "reconcileEndpoints w st = convergeLoop w (specOrder w) st"
    by (simp add: reconcileEndpoints_def)
  obtain r st' where conv: "convergeLoop w (specOrder w) st = (r, st')"
    by (cases "convergeLoop w (specOrder w) st")
  from assms(2) have "\<forall>k\<in>set (specOrder w). \<forall>u. Spec_Endpoints (inst st) k = Some u \<longrightarrow>
      (\<exists>e. GetEndpoints w (remote st) (Status_ServiceID (inst st)) k = Inr [e] \<and> u = re_URL e)"
    by blast
  from convergeLoop_in_sync [OF conv this] run conv show ?thesis by simp
qed

text \<open>
  Claim C3.  If the query for a type is answered with more than one endpoint, the sync
  engine returns the multiple-endpoints error for that type, makes no create, update or
  delete call for it, and leaves \<open>EndpointIDs\<close> and the \<open>Endpoints\<close> entries of that type as
  they were before the pass.
\<close>

theorem ambiguous_type_is_left_alone:
  assumes "distinct (specOrder w)"
    and "OsCall t (GetEndpointsCall s t' (Inr es))
           \<in> set (issued st (snd (reconcileEndpoints w st)))"
    and "1 < length es"
  shows "fst (reconcileEndpoints w st) = Some (MultipleEndpoints (Spec_ServiceName (inst st)) t)
         \<and> (\<forall>c. OsCall t c \<in> set (issued st (snd (reconcileEndpoints w st))) \<longrightarrow> \<not> is_mutation c)
         \<and> Status_EndpointIDs (inst (snd (reconcileEndpoints w st))) t
             = Status_EndpointIDs (inst st) t
         \<and> entriesFor t (inst (snd (reconcileEndpoints w st))) = entriesFor t (inst st)"
proof -
  let ?st1 = "snd (retireLoop w (idsOrder w) st)"
  let ?st' = "snd (reconcileEndpoints w st)"
  note phases = reconcileEndpoints_issued [where w = w and st = st]
  from phases(4) have "OsCall t (GetEndpointsCall s t' (Inr es)) \<notin> set (issued st ?st1)"
    by auto
  with phases(3) assms(2)
  have query: "OsCall t (GetEndpointsCall s t' (Inr es)) \<in> set (issued ?st1 ?st')" by simp
  with phases(5) have in_spec: "Spec_Endpoints (inst st) t \<noteq> None" by auto
  with phases(4) have quiet1: "\<forall>c. OsCall t c \<notin> set (issued st ?st1)" by auto
  obtain r1 where retire: "retireLoop w (idsOrder w) st = (r1, ?st1)"
    by (metis prod.collapse)
  from retireLoop_other [OF retire, of t] in_spec
  have same1: "Status_EndpointIDs (inst ?st1) t = Status_EndpointIDs (inst st) t"
    "entriesFor t (inst ?st1) = entriesFor t (inst st)" by simp_all
  show ?thesis
  proof (cases rule: reconcileEndpoints_phases [of w st])
    case (retire_failed e)
    then have "?st' = ?st1" by simp
    with query show ?thesis by simp
  next
    case converged
    then obtain r where conv: "convergeLoop w (specOrder w) ?st1 = (r, ?st')"
      by (metis prod.collapse)
    with converged have r: "fst (reconcileEndpoints w st) = r" by (metis fst_conv)
    from convergeLoop_ambiguous [OF conv assms(1) query assms(3)] retireLoop_frame [OF retire]
      r same1 quiet1 phases(3)
    show ?thesis by auto
  qed
qed

text \<open>
  Claim C4.  In a pass that returns no error, a type recorded in \<open>EndpointIDs\<close> and absent
  from the spec gets exactly one remote call, a delete, and is gone from \<open>EndpointIDs\<close> and
  from the \<open>Endpoints\<close> list afterwards.  The delete asks for the endpoint of this instance's
  service (its name from the spec, its identifier from the status) under the availability
  of the type.  The calls of the pass are those of the retire loop, all deletes, followed
  by those of the converge loop, none of them a delete.
\<close>

theorem retired_type_is_deleted_once:
  assumes "fst (reconcileEndpoints w st) = None"
    and "enumerates (idsOrder w) (Status_EndpointIDs (inst st))"
    and "distinct (map Interface (Status_Endpoints (inst st)))"
    and "t \<in> dom (Status_EndpointIDs (inst st))" and "t \<notin> dom (Spec_Endpoints (inst st))"
  shows "(\<exists>a. GetAvailability w t = Inr a
            \<and> callsFor t (issued st (snd (reconcileEndpoints w st)))
                = [DeleteEndpointCall
                     \<lparr>os_Name = Spec_ServiceName (inst st),
                      os_ServiceID = Status_ServiceID (inst st),
                      os_Availability = a, os_URL = ''''\<rparr>])
         \<and> Status_EndpointIDs (inst (snd (reconcileEndpoints w st))) t = None
         \<and> entriesFor t (inst (snd (reconcileEndpoints w st))) = []
         \<and> issued st (snd (reconcileEndpoints w st))
             = issued st (snd (retireLoop w (idsOrder w) st))
               @ issued (snd (retireLoop w (idsOrder w) st)) (snd (reconcileEndpoints w st))
         \<and> (\<forall>ev\<in>set (issued st (snd (retireLoop w (idsOrder w) st))). is_delete ev)
         \<and> (\<forall>ev\<in>set (issued (snd (retireLoop w (idsOrder w) st))
                          (snd (reconcileEndpoints w st))). \<not> is_delete ev)"
proof -
  let ?st1 = "snd (retireLoop w (idsOrder w) st)"
  let ?st' = "snd (reconcileEndpoints w st)"
  note phases = reconcileEndpoints_issued [where w = w and st = st]
  from assms(1) have retired: "fst (retireLoop w (idsOrder w) st) = None"
    and run: "reconcileEndpoints w st = convergeLoop w (specOrder w) ?st1"
    by (cases rule: reconcileEndpoints_phases [of w st]; simp)+
  from retired have retire: "retireLoop w (idsOrder w) st = (None, ?st1)"
    by (metis prod.collapse)
  from assms(2,4) have order: "distinct (idsOrder w)" "t \<in> set (idsOrder w)"
    by (simp_all add: enumerates_def)
  from assms(4,5) have recorded: "Status_EndpointIDs (inst st) t \<noteq> None"
    and unspec: "Spec_Endpoints (inst st) t = None" by auto
  from retireLoop_retired [OF retire order(1) assms(3) order(2) recorded unspec]
  obtain a where avail: "GetAvailability w t = Inr a"
    and del: "callsFor t (issued st ?st1) = [DeleteEndpointCall
                \<lparr>os_Name = Spec_ServiceName (inst st), os_ServiceID = Status_ServiceID (inst st),
                 os_Availability = a, os_URL = ''''\<rparr>]"
    and ids1: "Status_EndpointIDs (inst ?st1) t = None"
    and eps1: "entriesFor t (inst ?st1) = []" by auto
  obtain r where conv: "convergeLoop w (specOrder w) ?st1 = (r, ?st')"
    using run by (metis prod.collapse)
  from retireLoop_frame [OF retire] unspec
  have unspec1: "Spec_Endpoints (inst ?st1) t = None" by simp
  from convergeLoop_other [OF conv, of t] unspec1 ids1 eps1
  have final: "Status_EndpointIDs (inst ?st') t = None" "entriesFor t (inst ?st') = []"
    by simp_all
  from phases(5) unspec have "\<forall>c. OsCall t c \<notin> set (issued ?st1 ?st')" by auto
  then have "callsFor t (issued ?st1 ?st') = []" by (rule callsFor_none)
  with phases(3) del avail have "\<exists>a. GetAvailability w t = Inr a
     \<and> callsFor t (issued st ?st') = [DeleteEndpointCall
          \<lparr>os_Name = Spec_ServiceName (inst st), os_ServiceID = Status_ServiceID (inst st),
           os_Availability = a, os_URL = ''''\<rparr>]" by simp
  moreover from phases(4) have "\<forall>ev\<in>set (issued st ?st1). is_delete ev" by auto
  moreover from phases(5) have "\<forall>ev\<in>set (issued ?st1 ?st'). \<not> is_delete ev" by auto
  ultimately show ?thesis using final phases(3) by blast
qed

text \<open>
  Claim C7, as amended.  The program does not fix the order in which it goes through the
  spec: it is the order in which the runtime enumerates the map in that pass.  A pass that
  returns no error queries every type of the spec exactly once, in that order.
\<close>

theorem types_are_processed_in_enumeration_order:
  assumes "fst (reconcileEndpoints w st) = None"
    and "enumerates (specOrder w) (Spec_Endpoints (inst st))"
  shows "queried (issued st (snd (reconcileEndpoints w st))) = specOrder w"
proof -
  let ?st1 = "snd (retireLoop w (idsOrder w) st)"
  let ?st' = "snd (reconcileEndpoints w st)"
  note phases = reconcileEndpoints_issued [where w = w and st = st]
  from assms(1) have retired: "fst (retireLoop w (idsOrder w) st) = None"
    and run: "reconcileEndpoints w st = convergeLoop w (specOrder w) ?st1"
    by (cases rule: reconcileEndpoints_phases [of w st]; simp)+
  from retired have retire: "retireLoop w (idsOrder w) st = (None, ?st1)"
    by (metis prod.collapse)
  from run assms(1) have conv: "convergeLoop w (specOrder w) ?st1 = (None, ?st')"
    by (metis prod.collapse)
  from phases(4) have "\<forall>ev\<in>set (issued st ?st1). is_delete ev" by auto
  then have "queried (issued st ?st1) = []" by (rule queried_deletes)
  moreover from convergeLoop_queried [OF conv] retireLoop_frame [OF retire]
  have "queried (issued ?st1 ?st')
          = filter (\<lambda>k. Spec_Endpoints (inst st) k \<noteq> None) (specOrder w)" by simp
  moreover from assms(2)
  have "filter (\<lambda>k. Spec_Endpoints (inst st) k \<noteq> None) (specOrder w) = specOrder w"
    by (auto simp: enumerates_def filter_id_conv)
  ultimately show ?thesis using phases(3) by simp
qed

text \<open>
  Claim C10.  If the converge loop has gone through the types \<open>before\<close> and the step for
  the next type \<open>t\<close> fails, the sync engine returns what that step returns, and for every
  type \<open>after\<close> it no remote call was made and \<open>EndpointIDs\<close> and the \<open>Endpoints\<close> entries are
  as they were before the pass.
\<close>

theorem converge_returns_at_first_failure:
  assumes "enumerates (specOrder w) (Spec_Endpoints (inst st))"
    and "specOrder w = before @ t # after"
    and "fst (retireLoop w (idsOrder w) st) = None"
    and "fst (convergeLoop w before (snd (retireLoop w (idsOrder w) st))) = None"
    and "Spec_Endpoints (inst st) t = Some u"
    and "fst (convergeOne w t u
                (snd (convergeLoop w before (snd (retireLoop w (idsOrder w) st))))) = Some e"
  shows "reconcileEndpoints w st =
           convergeOne w t u (snd (convergeLoop w before (snd (retireLoop w (idsOrder w) st))))
         \<and> (\<forall>t'\<in>set after.
               callsFor t' (issued st (snd (reconcileEndpoints w st))) = []
               \<and> Status_EndpointIDs (inst (snd (reconcileEndpoints w st))) t'
                   = Status_EndpointIDs (inst st) t'
               \<and> entriesFor t' (inst (snd (reconcileEndpoints w st))) = entriesFor t' (inst st))"
proof -
  define st1 where "st1 = snd (retireLoop w (idsOrder w) st)"
  define st2 where "st2 = snd (convergeLoop w before st1)"
  let ?st1 = st1
  let ?st2 = st2
  let ?st' = "snd (reconcileEndpoints w st)"
  from assms(3) have retire: "retireLoop w (idsOrder w) st = (None, ?st1)"
    unfolding st1_def by (metis prod.collapse)
  from assms(4) have pre: "convergeLoop w before ?st1 = (None, ?st2)"
    unfolding st2_def st1_def by (metis prod.collapse)
  obtain st3 where one: "convergeOne w t u ?st2 = (Some e, st3)"
    using assms(6) unfolding st2_def st1_def by (metis prod.collapse)
  from retireLoop_frame [OF retire] convergeLoop_frame [OF pre] assms(5)
  have spec2: "Spec_Endpoints (inst ?st2) t = Some u" by simp
  have "convergeLoop w (specOrder w) ?st1 = (Some e, st3)"
    using pre one spec2 by (simp add: assms(2) convergeLoop_append)
  with retire have run: "reconcileEndpoints w st = (Some e, st3)"
    by (simp add: reconcileEndpoints_def)
  with one have first: "reconcileEndpoints w st =
      convergeOne w t u (snd (convergeLoop w before (snd (retireLoop w (idsOrder w) st))))"
    by (simp add: st2_def st1_def)
  from run have st': "?st' = st3" by simp
  have rest: "callsFor t' (issued st ?st') = []
      \<and> Status_EndpointIDs (inst ?st') t' = Status_EndpointIDs (inst st) t'
      \<and> entriesFor t' (inst ?st') = entriesFor t' (inst st)" if "t' \<in> set after" for t'
  proof -
    from assms(1,2) that have fresh: "t' \<notin> set before" "t' \<noteq> t"
      and in_spec: "Spec_Endpoints (inst st) t' \<noteq> None"
      by (auto simp: enumerates_def)
    note r_calls = retireLoop_issued [OF retire]
    note p_calls = convergeLoop_issued [OF pre]
    note o_calls = convergeOne_issued [OF one]
    from r_calls have e1: "calls ?st1 = calls st @ issued st ?st1" ..
    from p_calls have e2: "calls ?st2 = calls ?st1 @ issued ?st1 ?st2" ..
    note t12 = issued_trans [OF e1 e2]
    note t13 = issued_trans [OF t12(1) o_calls(1)]
    from t13(2) t12(2)
    have split: "issued st st3 = issued st ?st1 @ issued ?st1 ?st2 @ issued ?st2 st3" by simp
    from r_calls in_spec have "\<forall>c. OsCall t' c \<notin> set (issued st ?st1)" by auto
    then have c1: "callsFor t' (issued st ?st1) = []" by (rule callsFor_none)
    from p_calls fresh(1) have "\<forall>c. OsCall t' c \<notin> set (issued ?st1 ?st2)" by auto
    then have c2: "callsFor t' (issued ?st1 ?st2) = []" by (rule callsFor_none)
    from o_calls(2) fresh(2) have "\<forall>c. OsCall t' c \<notin> set (issued ?st2 st3)" by auto
    then have c3: "callsFor t' (issued ?st2 st3) = []" by (rule callsFor_none)
    from retireLoop_other [OF retire, of t'] in_spec
      convergeLoop_other [OF pre, of t'] fresh(1)
      convergeOne_other [OF one, of t'] fresh(2)
    have "Status_EndpointIDs (inst st3) t' = Status_EndpointIDs (inst st) t'
          \<and> entriesFor t' (inst st3) = entriesFor t' (inst st)" by simp
    with split c1 c2 c3 st' show ?thesis by simp
  qed
  with first show ?thesis by blast
qed

lemma inSync_run:
  "reconcileEndpoints sampleWorld inSyncPass =
     (None, inSyncPass\<lparr>calls := [OsCall ''public''
        (GetEndpointsCall ''sid'' ''public'' (Inr [publicEndpoint ''id-public'']))]\<rparr>)"
  by (simp add: inSyncPass_def publicEndpoint_def sample_defs engine_defs)

theorem in_sync_pass_is_quiet_witness:
  "dom (Status_EndpointIDs (inst inSyncPass)) = dom (Spec_Endpoints (inst inSyncPass))
   \<and> GetEndpoints sampleWorld (remote inSyncPass) (Status_ServiceID (inst inSyncPass)) ''public''
       = Inr [publicEndpoint ''id-public'']
   \<and> Spec_Endpoints (inst inSyncPass) ''public'' = Some (re_URL (publicEndpoint ''id-public''))
   \<and> \<not> (\<exists>t c. OsCall t c \<in> set (issued inSyncPass (snd (reconcileEndpoints sampleWorld inSyncPass)))
               \<and> is_mutation c)
   \<and> remote (snd (reconcileEndpoints sampleWorld inSyncPass)) = remote inSyncPass"
proof -
  have keys: "dom (Status_EndpointIDs (inst inSyncPass)) = dom (Spec_Endpoints (inst inSyncPass))"
    by (simp add: inSyncPass_def sample_defs)
  have answer: "GetEndpoints sampleWorld (remote inSyncPass) (Status_ServiceID (inst inSyncPass))
                  ''public'' = Inr [publicEndpoint ''id-public'']"
    by (simp add: inSyncPass_def publicEndpoint_def sample_defs)
  have wanted: "Spec_Endpoints (inst inSyncPass) ''public''
                  = Some (re_URL (publicEndpoint ''id-public''))"
    by (simp add: inSyncPass_def publicEndpoint_def sample_defs)
  have remote: "\<forall>t u. Spec_Endpoints (inst inSyncPass) t = Some u \<longrightarrow>
         (\<exists>e. GetEndpoints sampleWorld (remote inSyncPass) (Status_ServiceID (inst inSyncPass)) t
                 = Inr [e] \<and> re_URL e = u)"
    by (simp add: inSyncPass_def publicEndpoint_def sample_defs)
  from in_sync_pass_is_quiet [OF keys remote] keys answer wanted show ?thesis by blast
qed

lemma ambiguous_run:
  "reconcileEndpoints sampleWorld ambiguousPass =
     (Some (MultipleEndpoints ''svc'' ''public''),
      ambiguousPass\<lparr>calls := [OsCall ''public''
        (GetEndpointsCall ''sid'' ''public''
           (Inr [publicEndpoint ''id-1'', publicEndpoint ''id-2'']))]\<rparr>)"
  by (simp add: ambiguousPass_def publicEndpoint_def sample_defs engine_defs)

theorem ambiguous_type_is_left_alone_witness:
  "distinct (specOrder sampleWorld)
   \<and> OsCall ''public'' (GetEndpointsCall ''sid'' ''public''
        (Inr [publicEndpoint ''id-1'', publicEndpoint ''id-2'']))
       \<in> set (issued ambiguousPass (snd (reconcileEndpoints sampleWorld ambiguousPass)))
   \<and> 1 < length [publicEndpoint ''id-1'', publicEndpoint ''id-2'']
   \<and> fst (reconcileEndpoints sampleWorld ambiguousPass)
       = Some (MultipleEndpoints (Spec_ServiceName (inst ambiguousPass)) ''public'')
   \<and> \<not> (\<exists>c. OsCall ''public'' c
                \<in> set (issued ambiguousPass (snd (reconcileEndpoints sampleWorld ambiguousPass)))
              \<and> is_mutation c)
   \<and> Status_EndpointIDs (inst (snd (reconcileEndpoints sampleWorld ambiguousPass))) ''public''
       = Status_EndpointIDs (inst ambiguousPass) ''public''
   \<and> entriesFor ''public'' (inst (snd (reconcileEndpoints sampleWorld ambiguousPass)))
       = entriesFor ''public'' (inst ambiguousPass)"
proof -
  have order: "distinct (specOrder sampleWorld)" by (simp add: sample_defs)
  have query: "OsCall ''public'' (GetEndpointsCall ''sid'' ''public''
        (Inr [publicEndpoint ''id-1'', publicEndpoint ''id-2'']))
       \<in> set (issued ambiguousPass (snd (reconcileEndpoints sampleWorld ambiguousPass)))"
    by (simp add: ambiguous_run issued_def) (simp add: ambiguousPass_def)
  have two: "1 < length [publicEndpoint ''id-1'', publicEndpoint ''id-2'']" by simp
  from ambiguous_type_is_left_alone [OF order query two] order query two
  show ?thesis by blast
qed

theorem retired_type_is_deleted_once_witness:
  "fst (reconcileEndpoints staleWorld stalePass) = None
   \<and> enumerates (idsOrder staleWorld) (Status_EndpointIDs (inst stalePass))
   \<and> distinct (map Interface (Status_Endpoints (inst stalePass)))
   \<and> ''internal'' \<in> dom (Status_EndpointIDs (inst stalePass))
   \<and> ''internal'' \<notin> dom (Spec_Endpoints (inst stalePass))
   \<and> GetAvailability staleWorld ''internal'' = Inr ''internal''
   \<and> Spec_ServiceName (inst stalePass) = ''svc''
   \<and> Status_ServiceID (inst stalePass) = ''sid''
   \<and> callsFor ''internal'' (issued stalePass (snd (reconcileEndpoints staleWorld stalePass)))
       = [DeleteEndpointCall
            \<lparr>os_Name = ''svc'', os_ServiceID = ''sid'', os_Availability = ''internal'',
             os_URL = ''''\<rparr>]
   \<and> Status_EndpointIDs (inst (snd (reconcileEndpoints staleWorld stalePass))) ''internal'' = None
   \<and> entriesFor ''internal'' (inst (snd (reconcileEndpoints staleWorld stalePass))) = []"
proof -
  have ok: "fst (reconcileEndpoints staleWorld stalePass) = None"
    by (simp add: stale_run)
  have enum: "enumerates (idsOrder staleWorld) (Status_EndpointIDs (inst stalePass))"
    by (simp add: enumerates_def staleWorld_def stalePass_def staleInstance_def sample_defs)
  have uniq: "distinct (map Interface (Status_Endpoints (inst stalePass)))"
    by (simp add: stalePass_def staleInstance_def sample_defs)
  have recorded: "''internal'' \<in> dom (Status_EndpointIDs (inst stalePass))"
    by (simp add: stalePass_def staleInstance_def sample_defs)
  have dropped: "''internal'' \<notin> dom (Spec_Endpoints (inst stalePass))"
    by (simp add: stalePass_def staleInstance_def sample_defs)
  have avail: "GetAvailability staleWorld ''internal'' = Inr ''internal''"
    by (simp add: staleWorld_def sample_defs)
  have names: "Spec_ServiceName (inst stalePass) = ''svc''"
    "Status_ServiceID (inst stalePass) = ''sid''"
    by (simp_all add: stalePass_def staleInstance_def sample_defs)
  from retired_type_is_deleted_once [OF ok enum uniq recorded dropped]
    ok enum uniq recorded dropped avail names
  show ?thesis by auto
qed

lemma twoType_admin_first:
  "calls (snd (reconcileEndpoints (sampleWorld\<lparr>specOrder := [''admin'', ''public'']\<rparr>) twoTypePass)) =
     [OsCall ''admin'' (GetEndpointsCall ''sid'' ''admin'' (Inr [])),
      OsCall ''admin'' (CreateEndpointCall
        \<lparr>os_Name = ''svc'', os_ServiceID = ''sid'', os_Availability = ''admin'', os_URL = ''http://b''\<rparr>),
      OsCall ''public'' (GetEndpointsCall ''sid'' ''public'' (Inr [])),
      OsCall ''public'' (CreateEndpointCall
        \<lparr>os_Name = ''svc'', os_ServiceID = ''sid'', os_Availability = ''public'', os_URL = ''http://a''\<rparr>)]"
  by (simp add: twoTypePass_def sample_defs engine_defs)

lemma twoType_public_first:
  "calls (snd (reconcileEndpoints (sampleWorld\<lparr>specOrder := [''public'', ''admin'']\<rparr>) twoTypePass)) =
     [OsCall ''public'' (GetEndpointsCall ''sid'' ''public'' (Inr [])),
      OsCall ''public'' (CreateEndpointCall
        \<lparr>os_Name = ''svc'', os_ServiceID = ''sid'', os_Availability = ''public'', os_URL = ''http://a''\<rparr>),
      OsCall ''admin'' (GetEndpointsCall ''sid'' ''admin'' (Inr [])),
      OsCall ''admin'' (CreateEndpointCall
        \<lparr>os_Name = ''svc'', os_ServiceID = ''sid'', os_Availability = ''admin'', os_URL = ''http://b''\<rparr>)]"
  by (simp add: twoTypePass_def sample_defs engine_defs)

text \<open>
  Claim C7 as stated fails: the same instance and the same registry, gone through in the two
  orders of a two-key map, give two different sequences of remote calls.
\<close>

theorem call_order_depends_on_enumeration:
  "enumerates [''admin'', ''public''] (Spec_Endpoints (inst twoTypePass))
   \<and> enumerates [''public'', ''admin''] (Spec_Endpoints (inst twoTypePass))
   \<and> calls (snd (reconcileEndpoints (sampleWorld\<lparr>specOrder := [''admin'', ''public'']\<rparr>) twoTypePass))
       \<noteq> calls (snd (reconcileEndpoints (sampleWorld\<lparr>specOrder := [''public'', ''admin'']\<rparr>) twoTypePass))"
proof -
  have "enumerates [''admin'', ''public''] (Spec_Endpoints (inst twoTypePass))"
    by (auto simp: enumerates_def twoTypePass_def sample_defs)
  moreover have "enumerates [''public'', ''admin''] (Spec_Endpoints (inst twoTypePass))"
    by (auto simp: enumerates_def twoTypePass_def sample_defs)
  ultimately show ?thesis by (simp add: twoType_admin_first twoType_public_first)
qed

theorem types_are_processed_in_enumeration_order_witness:
  "fst (reconcileEndpoints (sampleWorld\<lparr>specOrder := [''public'', ''admin'']\<rparr>) twoTypePass) = None
   \<and> enumerates (specOrder (sampleWorld\<lparr>specOrder := [''public'', ''admin'']\<rparr>))
       (Spec_Endpoints (inst twoTypePass))
   \<and> queried (issued twoTypePass
        (snd (reconcileEndpoints (sampleWorld\<lparr>specOrder := [''public'', ''admin'']\<rparr>) twoTypePass)))
       = specOrder (sampleWorld\<lparr>specOrder := [''public'', ''admin'']\<rparr>)"
proof -
  have ok: "fst (reconcileEndpoints (sampleWorld\<lparr>specOrder := [''public'', ''admin'']\<rparr>) twoTypePass)
              = None"
    by (simp add: twoTypePass_def sample_defs engine_defs)
  have enum: "enumerates (specOrder (sampleWorld\<lparr>specOrder := [''public'', ''admin'']\<rparr>))
       (Spec_Endpoints (inst twoTypePass))"
    by (auto simp: enumerates_def twoTypePass_def sample_defs)
  from types_are_processed_in_enumeration_order [OF ok enum] ok enum show ?thesis by blast
qed

theorem converge_returns_at_first_failure_witness:
  "enumerates (specOrder (sampleWorld\<lparr>specOrder := [''bogus'', ''public'']\<rparr>))
     (Spec_Endpoints (inst misspeltPass))
   \<and> specOrder (sampleWorld\<lparr>specOrder := [''bogus'', ''public'']\<rparr>) = [] @ ''bogus'' # [''public'']
   \<and> Spec_Endpoints (inst misspeltPass) ''bogus'' = Some ''http://x''
   \<and> reconcileEndpoints (sampleWorld\<lparr>specOrder := [''bogus'', ''public'']\<rparr>) misspeltPass
       = (Some (Failure ''bogus''), misspeltPass)
   \<and> callsFor ''public'' (issued misspeltPass
          (snd (reconcileEndpoints (sampleWorld\<lparr>specOrder := [''bogus'', ''public'']\<rparr>) misspeltPass))) = []
   \<and> Status_EndpointIDs (inst
          (snd (reconcileEndpoints (sampleWorld\<lparr>specOrder := [''bogus'', ''public'']\<rparr>) misspeltPass)))
        ''public''
       = Status_EndpointIDs (inst misspeltPass) ''public''
   \<and> entriesFor ''public'' (inst
          (snd (reconcileEndpoints (sampleWorld\<lparr>specOrder := [''bogus'', ''public'']\<rparr>) misspeltPass)))
       = entriesFor ''public'' (inst misspeltPass)"
proof -
  let ?w = "sampleWorld\<lparr>specOrder := [''bogus'', ''public'']\<rparr>"
  have enum: "enumerates (specOrder ?w) (Spec_Endpoints (inst misspeltPass))"
    by (auto simp: enumerates_def misspeltPass_def sample_defs)
  have order: "specOrder ?w = [] @ ''bogus'' # [''public'']" by (simp add: sample_defs)
  have retire: "fst (retireLoop ?w (idsOrder ?w) misspeltPass) = None"
    by (simp add: sample_defs)
  have pre: "fst (convergeLoop ?w [] (snd (retireLoop ?w (idsOrder ?w) misspeltPass))) = None"
    by (simp add: sample_defs)
  have spec: "Spec_Endpoints (inst misspeltPass) ''bogus'' = Some ''http://x''"
    by (simp add: misspeltPass_def sample_defs)
  have step: "convergeOne ?w ''bogus'' ''http://x''
                (snd (convergeLoop ?w [] (snd (retireLoop ?w (idsOrder ?w) misspeltPass))))
              = (Some (Failure ''bogus''), misspeltPass)"
    by (simp add: sample_defs engine_defs)
  then have fails: "fst (convergeOne ?w ''bogus'' ''http://x''
                (snd (convergeLoop ?w [] (snd (retireLoop ?w (idsOrder ?w) misspeltPass)))))
              = Some (Failure ''bogus'')" by simp
  from converge_returns_at_first_failure [OF enum order retire pre spec fails] step
    enum order spec
  show ?thesis by simp
qed

section \<open>Properties of the orchestrator\<close>

subsection \<open>Conditions\<close>

lemma GetCondition_Set_same: "GetCondition (Type c) (Conditions_Set c cs) = Some c"
  by (induction cs) (auto simp: GetCondition_def)

lemma GetCondition_Set_other:
  "Type c \<noteq> t \<Longrightarrow> GetCondition t (Conditions_Set c cs) = GetCondition t cs"
  by (induction cs) (auto simp: GetCondition_def)

lemma AllSub_Set_Ready:
  "Type c = ReadyCondition \<Longrightarrow>
     AllSubConditionIsTrue (Conditions_Set c cs) = AllSubConditionIsTrue cs"
  by (induction cs) (auto simp: AllSubConditionIsTrue_def)

lemma others_Conditions_Set:
  "filter (\<lambda>x. Type x \<noteq> Type c) (Conditions_Set c cs) = filter (\<lambda>x. Type x \<noteq> Type c) cs"
  by (induction cs) auto

lemma mostRelevant_mem: "mostRelevant rel b cs \<in> set (b # cs)"
proof (induction cs arbitrary: b)
  case Nil
  then show ?case by simp
next
  case (Cons x xs)
  from Cons.IH [of "if rel b < rel x then x else b"] show ?case
    by (auto split: if_splits)
qed

lemma mostRelevant_max: "\<forall>c\<in>set (b # cs). rel c \<le> rel (mostRelevant rel b cs)"
proof (induction cs arbitrary: b)
  case Nil
  then show ?case by simp
next
  case (Cons x xs)
  let ?b = "if rel b < rel x then x else b"
  from Cons.IH [of ?b] have ih: "\<forall>c\<in>set (?b # xs). rel c \<le> rel (mostRelevant rel ?b xs)" .
  then have top: "rel ?b \<le> rel (mostRelevant rel ?b xs)" by simp
  have "rel b \<le> rel ?b" "rel x \<le> rel ?b" by simp_all
  with top have "rel b \<le> rel (mostRelevant rel ?b xs)" "rel x \<le> rel (mostRelevant rel ?b xs)"
    by linarith+
  moreover from ih have "\<forall>c\<in>set xs. rel c \<le> rel (mostRelevant rel ?b xs)" by simp
  ultimately show ?case by simp
qed

lemma Conditions_Mirror_type: "Conditions_Mirror rel t cs = Some c \<Longrightarrow> Type c = t"
  by (auto simp add: Conditions_Mirror_def split: list.splits)

text \<open>When some condition of another type is not true, the copy is of such a condition,
  and none of them is more relevant.\<close>

lemma Conditions_Mirror_worst:
  assumes "\<exists>c\<in>set cs. Type c \<noteq> t \<and> Status c \<noteq> ConditionTrue"
  shows "\<exists>c'\<in>set cs. Type c' \<noteq> t \<and> Status c' \<noteq> ConditionTrue
           \<and> Conditions_Mirror rel t cs = Some (c'\<lparr>Type := t\<rparr>)
           \<and> (\<forall>c''\<in>set cs. Type c'' \<noteq> t \<and> Status c'' \<noteq> ConditionTrue
                  \<longrightarrow> rel c'' \<le> rel c')"
proof -
  let ?bad = "filter (\<lambda>c. Type c \<noteq> t \<and> Status c \<noteq> ConditionTrue) cs"
  from assms have "?bad \<noteq> []" by (auto simp add: filter_empty_conv)
  then obtain b rest where bad: "?bad = b # rest" by (cases ?bad) auto
  let ?c = "mostRelevant rel b rest"
  from mostRelevant_mem [of rel b rest] bad have "?c \<in> set ?bad" by simp
  then have mem: "?c \<in> set cs" "Type ?c \<noteq> t" "Status ?c \<noteq> ConditionTrue" by auto
  have m: "Conditions_Mirror rel t cs = Some (?c\<lparr>Type := t\<rparr>)"
    by (simp add: Conditions_Mirror_def bad)
  have "rel c'' \<le> rel ?c" if "c'' \<in> set cs" "Type c'' \<noteq> t" "Status c'' \<noteq> ConditionTrue"
    for c''
  proof -
    from that have "c'' \<in> set ?bad" by simp
    with bad have "c'' \<in> set (b # rest)" by simp
    with mostRelevant_max [of b rest rel] show ?thesis by blast
  qed
  with mem m show ?thesis by blast
qed

lemma conds_replaced [simp]: "conds (i\<lparr>Status_Conditions := Some cs\<rparr>) = cs"
  by (simp add: conds_def)

lemma conds_updateReady:
  "conds (updateReady w i) =
     (if AllSubConditionIsTrue (conds i) then MarkTrue ReadyCondition ReadyMessage (conds i)
      else (case Conditions_Mirror (Relevance w) ReadyCondition
                   (MarkUnknown ReadyCondition InitReason ReadyInitMessage (conds i)) of
              None \<Rightarrow> MarkUnknown ReadyCondition InitReason ReadyInitMessage (conds i)
            | Some c \<Rightarrow> Conditions_Set c
                         (MarkUnknown ReadyCondition InitReason ReadyInitMessage (conds i))))"
  by (simp add: updateReady_def Let_def split: option.splits)

lemma updateReady_fields:
  "updateReady w i = i\<lparr>Status_Conditions := Status_Conditions (updateReady w i)\<rparr>"
  by (simp add: updateReady_def Let_def)


text \<open>The roll-up, in terms of the conditions it is given.\<close>

lemma updateReady_rolls_up:
  fixes w :: "'r world" and i :: KeystoneEndpoint
  defines "cs \<equiv> conds i" and "cs' \<equiv> conds (updateReady w i)"
  shows "filter (\<lambda>c. Type c \<noteq> ReadyCondition) cs' = filter (\<lambda>c. Type c \<noteq> ReadyCondition) cs"
    and "AllSubConditionIsTrue cs \<Longrightarrow>
           GetCondition ReadyCondition cs' = Some (TrueCondition ReadyCondition ReadyMessage)"
    and "\<not> AllSubConditionIsTrue cs \<Longrightarrow>
           \<exists>c'\<in>set cs. Type c' \<noteq> ReadyCondition \<and> Status c' \<noteq> ConditionTrue
             \<and> GetCondition ReadyCondition cs' = Some (c'\<lparr>Type := ReadyCondition\<rparr>)
             \<and> (\<forall>c''\<in>set cs. Type c'' \<noteq> ReadyCondition \<and> Status c'' \<noteq> ConditionTrue
                    \<longrightarrow> Relevance w c'' \<le> Relevance w c')"
proof -
  let ?u = "UnknownCondition ReadyCondition InitReason ReadyInitMessage"
  let ?t = "TrueCondition ReadyCondition ReadyMessage"
  let ?cs1 = "Conditions_Set ?u cs"
  let ?sub = "filter (\<lambda>c. Type c \<noteq> ReadyCondition)"
  have tu: "Type ?u = ReadyCondition" by (simp add: UnknownCondition_def)
  have tt: "Type ?t = ReadyCondition" by (simp add: TrueCondition_def)
  have sub1: "?sub ?cs1 = ?sub cs" using others_Conditions_Set [of ?u cs] by (simp add: tu)
  have bad: "\<exists>c\<in>set ?cs1. Type c \<noteq> ReadyCondition \<and> Status c \<noteq> ConditionTrue"
    if no: "\<not> AllSubConditionIsTrue cs"
  proof -
    from no obtain c where "c \<in> set cs" "Type c \<noteq> ReadyCondition" "Status c \<noteq> ConditionTrue"
      by (auto simp add: AllSubConditionIsTrue_def list_all_iff)
    then have "c \<in> set (?sub cs)" by simp
    with sub1 have "c \<in> set (?sub ?cs1)" by simp
    with \<open>Status c \<noteq> ConditionTrue\<close> show ?thesis by auto
  qed
  have picked: "\<exists>c'\<in>set cs. Type c' \<noteq> ReadyCondition \<and> Status c' \<noteq> ConditionTrue
       \<and> cs' = Conditions_Set (c'\<lparr>Type := ReadyCondition\<rparr>) ?cs1
       \<and> (\<forall>c''\<in>set cs. Type c'' \<noteq> ReadyCondition \<and> Status c'' \<noteq> ConditionTrue
              \<longrightarrow> Relevance w c'' \<le> Relevance w c')"
    if no: "\<not> AllSubConditionIsTrue cs"
  proof -
    from Conditions_Mirror_worst [OF bad [OF no], of "Relevance w"]
    obtain c' where c': "c' \<in> set ?cs1" "Type c' \<noteq> ReadyCondition" "Status c' \<noteq> ConditionTrue"
      "Conditions_Mirror (Relevance w) ReadyCondition ?cs1 = Some (c'\<lparr>Type := ReadyCondition\<rparr>)"
      and mx: "\<forall>c''\<in>set ?cs1. Type c'' \<noteq> ReadyCondition \<and> Status c'' \<noteq> ConditionTrue
                 \<longrightarrow> Relevance w c'' \<le> Relevance w c'"
      by blast
    from c'(1,2) have "c' \<in> set (?sub ?cs1)" by simp
    with sub1 have in_cs: "c' \<in> set cs" by simp
    have "Relevance w c'' \<le> Relevance w c'"
      if "c'' \<in> set cs" "Type c'' \<noteq> ReadyCondition" "Status c'' \<noteq> ConditionTrue" for c''
    proof -
      from that have "c'' \<in> set (?sub cs)" by simp
      with sub1 have "c'' \<in> set (?sub ?cs1)" by simp
      then have "c'' \<in> set ?cs1" by simp
      with mx that show ?thesis by blast
    qed
    moreover from no c'(4) have "cs' = Conditions_Set (c'\<lparr>Type := ReadyCondition\<rparr>) ?cs1"
      by (simp add: cs'_def cs_def conds_updateReady MarkUnknown_def)
    ultimately show ?thesis using in_cs c'(2,3) by blast
  qed
  show "?sub cs' = ?sub cs"
  proof (cases "AllSubConditionIsTrue cs")
    case True
    then have "cs' = Conditions_Set ?t cs"
      by (simp add: cs'_def cs_def conds_updateReady MarkTrue_def)
    with others_Conditions_Set [of ?t cs] show ?thesis by (simp add: tt)
  next
    case False
    from picked [OF False] obtain c' where
      "cs' = Conditions_Set (c'\<lparr>Type := ReadyCondition\<rparr>) ?cs1" by blast
    with others_Conditions_Set [of "c'\<lparr>Type := ReadyCondition\<rparr>" ?cs1] sub1
    show ?thesis by simp
  qed
  show "GetCondition ReadyCondition cs' = Some ?t" if "AllSubConditionIsTrue cs"
    using that GetCondition_Set_same [of ?t cs]
    by (simp add: cs'_def cs_def conds_updateReady MarkTrue_def tt)
  show "\<exists>c'\<in>set cs. Type c' \<noteq> ReadyCondition \<and> Status c' \<noteq> ConditionTrue
             \<and> GetCondition ReadyCondition cs' = Some (c'\<lparr>Type := ReadyCondition\<rparr>)
             \<and> (\<forall>c''\<in>set cs. Type c'' \<noteq> ReadyCondition \<and> Status c'' \<noteq> ConditionTrue
                    \<longrightarrow> Relevance w c'' \<le> Relevance w c')"
    if no: "\<not> AllSubConditionIsTrue cs"
  proof -
    from picked [OF no] obtain c' where c': "c' \<in> set cs" "Type c' \<noteq> ReadyCondition"
      "Status c' \<noteq> ConditionTrue"
      "cs' = Conditions_Set (c'\<lparr>Type := ReadyCondition\<rparr>) ?cs1"
      and mx: "\<forall>c''\<in>set cs. Type c'' \<noteq> ReadyCondition \<and> Status c'' \<noteq> ConditionTrue
              \<longrightarrow> Relevance w c'' \<le> Relevance w c'"
      by blast
    from c'(4) GetCondition_Set_same [of "c'\<lparr>Type := ReadyCondition\<rparr>" ?cs1]
    have "GetCondition ReadyCondition cs' = Some (c'\<lparr>Type := ReadyCondition\<rparr>)" by simp
    with c'(1-3) mx show ?thesis by blast
  qed
qed

lemma GetCondition_others:
  "t \<noteq> r \<Longrightarrow> GetCondition t (filter (\<lambda>c. Type c \<noteq> r) cs) = GetCondition t cs"
  by (induction cs) (auto simp add: GetCondition_def)

lemma GetCondition_updateReady:
  assumes "t \<noteq> ReadyCondition"
  shows "GetCondition t (conds (updateReady w i)) = GetCondition t (conds i)"
  using GetCondition_others [OF assms, of "conds (updateReady w i)"]
    GetCondition_others [OF assms, of "conds i"] updateReady_rolls_up(1) [of w i]
  by simp

lemmas orchestrator_defs = Reconcile_def reconcileBody_def reconcileDependencies_def
  reconcileNormal_def reconcileDelete_def reconcileDeleteFinalizersOnly_def
  holdAPI_def holdService_def releaseAPI_def releaseService_def removeOwnFinalizer_def
  updateReady_def setConditions_def conds_def marker_def
  AddFinalizer_def RemoveFinalizer_def MarkTrue_def MarkUnknown_def
  TrueCondition_def FalseCondition_def UnknownCondition_def AllSubConditionIsTrue_def
  GetCondition_def Conditions_Init_def NoRequeue_def RequeueAfterSeconds_def
  Conditions_Mirror_def sampleRelevance_def

subsection \<open>The delete paths\<close>

lemma deleted_append [simp]: "deleted (a @ b) = deleted a @ deleted b"
  by (induction a rule: deleted.induct) simp_all



lemma marker_fields [simp]:
  "marker w (i\<lparr>Status_EndpointIDs := m\<rparr>) = marker w i"
  "marker w (i\<lparr>Status_ObservedGeneration := g\<rparr>) = marker w i"
  "marker w (i\<lparr>Status_Conditions := c\<rparr>) = marker w i"
  "marker w (i\<lparr>Finalizers := f\<rparr>) = marker w i"
  by (simp_all add: marker_def)

lemma serviceRelease_fields [simp]:
  "serviceReleaseCalls w (i\<lparr>Status_EndpointIDs := m\<rparr>) = serviceReleaseCalls w i"
  "serviceReleaseCalls w (i\<lparr>Status_ObservedGeneration := g\<rparr>) = serviceReleaseCalls w i"
  "serviceReleaseError w (i\<lparr>Status_EndpointIDs := m\<rparr>) = serviceReleaseError w i"
  "serviceReleaseError w (i\<lparr>Status_ObservedGeneration := g\<rparr>) = serviceReleaseError w i"
  "apiReleaseCalls w a (i\<lparr>Status_EndpointIDs := m\<rparr>) = apiReleaseCalls w a i"
  "apiReleaseError w a (i\<lparr>Status_EndpointIDs := m\<rparr>) = apiReleaseError w a i"
  by (simp_all add: serviceReleaseCalls_def serviceReleaseError_def apiReleaseCalls_def
        apiReleaseError_def split: sum.splits option.splits)












subsection \<open>The orchestrator\<close>

lemma Reconcile_eq:
  assumes "GetInstance w = Inr i" and "NewHelper w = None"
    and "reconcileBody w \<lparr>inst = i, remote = Registry w, calls = []\<rparr> = ((res, err), st)"
  shows "snd (Reconcile w) = Some (st\<lparr>inst := updateReady w (inst st)\<rparr>)"
    and "fst (fst (Reconcile w)) = res"
    and "snd (fst (Reconcile w)) =
           (case PatchInstance w (updateReady w (inst st)) of Some perr \<Rightarrow> Some perr | None \<Rightarrow> err)"
  using assms by (simp_all add: Reconcile_def Let_def split: option.splits)

lemma reconcileBody_first_sight:
  "Status_Conditions (inst st) = None \<Longrightarrow>
     \<exists>cs. reconcileBody w st = ((NoRequeue, None), st\<lparr>inst := (inst st)\<lparr>Status_Conditions := cs\<rparr>\<rparr>)"
  unfolding reconcileBody_def by (simp only: option.case) (rule exI, rule refl)


lemma reconcileBody_initialised:
  assumes "Status_Conditions (inst st) \<noteq> None"
    and "DeletionTimestamp (inst st) \<noteq> None \<or> GetFinalizer w \<in> set (Finalizers (inst st))"
  shows "reconcileBody w st =
     reconcileDependencies w
       (st\<lparr>inst := (inst st)\<lparr>Status_ObservedGeneration := Generation (inst st)\<rparr>\<rparr>)"
  using assms by (auto simp add: reconcileBody_def AddFinalizer_def Let_def split: option.splits)



lemma conds_generation [simp]:
  "conds (i\<lparr>Status_ObservedGeneration := g\<rparr>) = conds i"
  by (simp add: conds_def)

text \<open>
  Claim C2, as amended.  Every pass that gets past the fetch of the instance and the making
  of the helper, whichever way its body returns, hands over the instance as the body left
  it but for the \<open>Ready\<close> condition: every other condition is as the body left it, and
  \<open>Ready\<close> is true exactly when all of them are true.  When they are, \<open>Ready\<close> is the true
  condition with the ready message; when one is not, \<open>Ready\<close> is the copy of a sub-condition
  that is not true, and no sub-condition that is not true is more relevant than it.
\<close>

theorem Ready_is_rolled_up:
  assumes "GetInstance w = Inr i" and "NewHelper w = None"
  shows "\<exists>st c. snd (Reconcile w) = Some st
           \<and> (let st0 = snd (reconcileBody w \<lparr>inst = i, remote = Registry w, calls = []\<rparr>);
                   sub = conds (inst st0)
               in st = st0\<lparr>inst := (inst st0)\<lparr>Status_Conditions := Status_Conditions (inst st)\<rparr>\<rparr>
                \<and> (\<forall>t. t \<noteq> ReadyCondition \<longrightarrow>
                      GetCondition t (conds (inst st)) = GetCondition t sub)
                \<and> GetCondition ReadyCondition (conds (inst st)) = Some c
                \<and> (Status c = ConditionTrue \<longleftrightarrow> AllSubConditionIsTrue sub)
                \<and> (AllSubConditionIsTrue sub \<longrightarrow> c = TrueCondition ReadyCondition ReadyMessage)
                \<and> (\<not> AllSubConditionIsTrue sub \<longrightarrow>
                      (\<exists>c'\<in>set sub. Type c' \<noteq> ReadyCondition \<and> Status c' \<noteq> ConditionTrue
                         \<and> c = c'\<lparr>Type := ReadyCondition\<rparr>
                         \<and> (\<forall>c''\<in>set sub. Type c'' \<noteq> ReadyCondition
                                \<and> Status c'' \<noteq> ConditionTrue
                                \<longrightarrow> Relevance w c'' \<le> Relevance w c'))))"
proof -
  obtain res err st0 where
    body: "reconcileBody w \<lparr>inst = i, remote = Registry w, calls = []\<rparr> = ((res, err), st0)"
    by (metis prod.collapse)
  define st where "st = st0\<lparr>inst := updateReady w (inst st0)\<rparr>"
  from Reconcile_eq(1) [OF assms body] have out: "snd (Reconcile w) = Some st"
    by (simp add: st_def)
  have fin: "inst st = updateReady w (inst st0)" by (simp add: st_def)
  have shape: "st = st0\<lparr>inst := (inst st0)\<lparr>Status_Conditions := Status_Conditions (inst st)\<rparr>\<rparr>"
    using updateReady_fields [of w "inst st0"] by (simp add: st_def)
  have others: "\<forall>t. t \<noteq> ReadyCondition \<longrightarrow>
      GetCondition t (conds (inst st)) = GetCondition t (conds (inst st0))"
    by (simp add: fin GetCondition_updateReady)
  note roll = updateReady_rolls_up [where w = w and i = "inst st0"]
  show ?thesis
  proof (cases "AllSubConditionIsTrue (conds (inst st0))")
    case True
    from roll(2) [OF True] fin
    have "GetCondition ReadyCondition (conds (inst st))
            = Some (TrueCondition ReadyCondition ReadyMessage)" by simp
    moreover have "Status (TrueCondition ReadyCondition ReadyMessage) = ConditionTrue"
      by (simp add: TrueCondition_def)
    ultimately show ?thesis using out shape others True
      unfolding Let_def body snd_conv by blast
  next
    case False
    from roll(3) [OF False] fin obtain c' where c': "c' \<in> set (conds (inst st0))"
      "Type c' \<noteq> ReadyCondition" "Status c' \<noteq> ConditionTrue"
      "GetCondition ReadyCondition (conds (inst st)) = Some (c'\<lparr>Type := ReadyCondition\<rparr>)"
      "\<forall>c''\<in>set (conds (inst st0)). Type c'' \<noteq> ReadyCondition \<and> Status c'' \<noteq> ConditionTrue
          \<longrightarrow> Relevance w c'' \<le> Relevance w c'"
      by auto
    from c'(3) have "Status (c'\<lparr>Type := ReadyCondition\<rparr>) \<noteq> ConditionTrue" by simp
    with c' out shape others False show ?thesis
      unfolding Let_def body snd_conv by blast
  qed
qed

text \<open>
  Claim C2 as stated fails at the exits that come before the deferred function is
  registered: when the helper cannot be made the pass returns the error and hands nothing
  over, so an instance fetched with \<open>Ready\<close> true and a sub-condition false stays that way.
\<close>

theorem early_exit_skips_roll_up:
  "GetInstance helperFailsWorld = Inr unrolledInstance
   \<and> NewHelper helperFailsWorld = Some (Failure ''helper'')
   \<and> Reconcile helperFailsWorld = ((NoRequeue, Some (Failure ''helper'')), None)
   \<and> GetCondition ReadyCondition (conds unrolledInstance)
       = Some (TrueCondition ReadyCondition ReadyMessage)
   \<and> \<not> AllSubConditionIsTrue (conds unrolledInstance)"
  by (simp add: helperFailsWorld_def unrolledInstance_def sampleWorld_def sampleInstance_def
        Reconcile_def conds_def GetCondition_def AllSubConditionIsTrue_def TrueCondition_def
        FalseCondition_def)





subsection \<open>Absent dependencies\<close>

lemma reconcileDependencies_api_absent:
  assumes "GetKeystoneAPI w = Inl e" and "IsNotFound e" and "DeletionTimestamp (inst st) = None"
  shows "reconcileDependencies w st =
     ((RequeueAfterSeconds 5, None),
      setConditions
        (Conditions_Set
           (FalseCondition KeystoneAPIReadyCondition ErrorReason SeverityWarning
              KeystoneAPIReadyNotFoundMessage)) st)"
  using assms by (simp add: reconcileDependencies_def Let_def)

lemma reconcileDependencies_service_absent:
  assumes "GetKeystoneAPI w = Inr api" and "api_IsReady api"
    and "GetAdminServiceClient w = (NoRequeue, None)"
    and "GetKeystoneServiceWithName w = Inl e" and "IsNotFound e"
    and "DeletionTimestamp (inst st) = None"
  shows "reconcileDependencies w st =
     ((RequeueAfterSeconds 5, None),
      setConditions (MarkTrue AdminServiceClientReadyCondition AdminServiceClientReadyMessage)
        (setConditions (MarkTrue KeystoneAPIReadyCondition KeystoneAPIReadyMessage) st))"
  using assms
  by (simp add: reconcileDependencies_def reconcileNormal_def Let_def setConditions_def)

lemma GetCondition_Set_apart:
  "t \<noteq> Type c \<Longrightarrow> GetCondition t (Conditions_Set c cs) = GetCondition t cs"
  using GetCondition_Set_other [of c t cs] by auto

text \<open>What a pass hands over when its body only noted the generation and replaced the
  conditions by \<open>cs\<close>.\<close>

lemma Reconcile_conditions_only:
  assumes "GetInstance w = Inr i" and "NewHelper w = None"
    and "reconcileBody w \<lparr>inst = i, remote = Registry w, calls = []\<rparr> =
           ((res, None),
            \<lparr>inst = i\<lparr>Status_ObservedGeneration := Generation i, Status_Conditions := Some cs\<rparr>,
             remote = Registry w, calls = []\<rparr>)"
  shows "\<exists>st. snd (Reconcile w) = Some st
           \<and> fst (Reconcile w) = (res, PatchInstance w (inst st))
           \<and> calls st = [] \<and> remote st = Registry w
           \<and> inst st = i\<lparr>Status_ObservedGeneration := Generation i,
                          Status_Conditions := Status_Conditions (inst st)\<rparr>
           \<and> (\<forall>t. t \<noteq> ReadyCondition \<longrightarrow>
                  GetCondition t (conds (inst st)) = GetCondition t cs)"
proof -
  let ?i1 = "i\<lparr>Status_ObservedGeneration := Generation i, Status_Conditions := Some cs\<rparr>"
  let ?S2 = "\<lparr>inst = ?i1, remote = Registry w, calls = []\<rparr>"
  define st where "st = ?S2\<lparr>inst := updateReady w ?i1\<rparr>"
  note R = Reconcile_eq [OF assms]
  from R(1) have s: "snd (Reconcile w) = Some st" by (simp add: st_def)
  have fin: "inst st = updateReady w ?i1" by (simp add: st_def)
  from R(2,3) have r: "fst (Reconcile w) = (res, PatchInstance w (inst st))"
    by (simp add: prod_eq_iff fin split: option.splits)
  have shape: "inst st = i\<lparr>Status_ObservedGeneration := Generation i,
                            Status_Conditions := Status_Conditions (inst st)\<rparr>"
    using updateReady_fields [of w ?i1] by (simp add: fin)
  have others: "\<forall>t. t \<noteq> ReadyCondition \<longrightarrow>
                  GetCondition t (conds (inst st)) = GetCondition t cs"
    by (simp add: fin GetCondition_updateReady)
  have "calls st = []" "remote st = Registry w" by (simp_all add: st_def)
  with s r shape others show ?thesis by blast
qed

text \<open>
  Claim C8, as amended.  Take a pass over an instance that is not being deleted, whose
  conditions are initialised and which already carries its own finalizer, so that the pass
  gets to the lookups.  If the identity API is not found, the pass asks for a retry in five
  seconds, returns no error of its own (the only error it can return is one of the final
  patch), writes nothing to the store or the identity service, and records
  \<open>KeystoneAPIReady\<close> as false with reason \<open>Error\<close>, severity \<open>Warning\<close> and the not-found
  message, every other sub-condition staying as fetched.  If the identity API is ready, the
  client is there and the service registration is not found, the pass asks for a retry in
  five seconds, returns no error of its own and writes nothing either; it records no
  condition about the absence: \<open>KeystoneAPIReady\<close> and \<open>AdminServiceClientReady\<close> are set
  true and every other sub-condition stays as fetched.
\<close>

theorem absent_dependency_schedules_retry:
  assumes "GetInstance w = Inr i" and "NewHelper w = None"
    and "Status_Conditions i \<noteq> None" and "DeletionTimestamp i = None"
    and "GetFinalizer w \<in> set (Finalizers i)"
  shows "(\<forall>e. GetKeystoneAPI w = Inl e \<and> IsNotFound e \<longrightarrow>
            (\<exists>st. snd (Reconcile w) = Some st
               \<and> fst (Reconcile w) = (RequeueAfterSeconds 5, PatchInstance w (inst st))
               \<and> calls st = [] \<and> remote st = Registry w
               \<and> inst st = i\<lparr>Status_ObservedGeneration := Generation i,
                              Status_Conditions := Status_Conditions (inst st)\<rparr>
               \<and> GetCondition KeystoneAPIReadyCondition (conds (inst st))
                   = Some (FalseCondition KeystoneAPIReadyCondition ErrorReason SeverityWarning
                             KeystoneAPIReadyNotFoundMessage)
               \<and> (\<forall>t. t \<noteq> ReadyCondition \<and> t \<noteq> KeystoneAPIReadyCondition \<longrightarrow>
                      GetCondition t (conds (inst st)) = GetCondition t (conds i))))
       \<and> (\<forall>api e. GetKeystoneAPI w = Inr api \<and> api_IsReady api
                 \<and> GetAdminServiceClient w = (NoRequeue, None)
                 \<and> GetKeystoneServiceWithName w = Inl e \<and> IsNotFound e \<longrightarrow>
            (\<exists>st. snd (Reconcile w) = Some st
               \<and> fst (Reconcile w) = (RequeueAfterSeconds 5, PatchInstance w (inst st))
               \<and> calls st = [] \<and> remote st = Registry w
               \<and> inst st = i\<lparr>Status_ObservedGeneration := Generation i,
                              Status_Conditions := Status_Conditions (inst st)\<rparr>
               \<and> GetCondition KeystoneAPIReadyCondition (conds (inst st))
                   = Some (TrueCondition KeystoneAPIReadyCondition KeystoneAPIReadyMessage)
               \<and> GetCondition AdminServiceClientReadyCondition (conds (inst st))
                   = Some (TrueCondition AdminServiceClientReadyCondition
                             AdminServiceClientReadyMessage)
               \<and> (\<forall>t. t \<noteq> ReadyCondition \<and> t \<noteq> KeystoneAPIReadyCondition
                        \<and> t \<noteq> AdminServiceClientReadyCondition \<longrightarrow>
                      GetCondition t (conds (inst st)) = GetCondition t (conds i))))"
proof -
  let ?S = "\<lparr>inst = i, remote = Registry w, calls = []\<rparr>"
  let ?S1 = "?S\<lparr>inst := (inst ?S)\<lparr>Status_ObservedGeneration := Generation (inst ?S)\<rparr>\<rparr>"
  from assms(3,5) have body: "reconcileBody w ?S = reconcileDependencies w ?S1"
    by (intro reconcileBody_initialised) simp_all
  have nd: "DeletionTimestamp (inst ?S1) = None" using assms(4) by simp
  have api: "\<exists>st. snd (Reconcile w) = Some st
               \<and> fst (Reconcile w) = (RequeueAfterSeconds 5, PatchInstance w (inst st))
               \<and> calls st = [] \<and> remote st = Registry w
               \<and> inst st = i\<lparr>Status_ObservedGeneration := Generation i,
                              Status_Conditions := Status_Conditions (inst st)\<rparr>
               \<and> GetCondition KeystoneAPIReadyCondition (conds (inst st))
                   = Some (FalseCondition KeystoneAPIReadyCondition ErrorReason SeverityWarning
                             KeystoneAPIReadyNotFoundMessage)
               \<and> (\<forall>t. t \<noteq> ReadyCondition \<and> t \<noteq> KeystoneAPIReadyCondition \<longrightarrow>
                      GetCondition t (conds (inst st)) = GetCondition t (conds i))"
    if a: "GetKeystoneAPI w = Inl e" "IsNotFound e" for e
  proof -
    let ?c = "FalseCondition KeystoneAPIReadyCondition ErrorReason SeverityWarning
                KeystoneAPIReadyNotFoundMessage"
    let ?cs = "Conditions_Set ?c (conds i)"
    have tc: "Type ?c = KeystoneAPIReadyCondition" by (simp add: FalseCondition_def)
    from body reconcileDependencies_api_absent [OF a nd]
    have b: "reconcileBody w ?S =
           ((RequeueAfterSeconds 5, None),
            \<lparr>inst = i\<lparr>Status_ObservedGeneration := Generation i, Status_Conditions := Some ?cs\<rparr>,
             remote = Registry w, calls = []\<rparr>)"
      by (simp add: setConditions_def)
    from Reconcile_conditions_only [OF assms(1,2) b] obtain st where
      st: "snd (Reconcile w) = Some st"
        "fst (Reconcile w) = (RequeueAfterSeconds 5, PatchInstance w (inst st))"
        "calls st = []" "remote st = Registry w"
        "inst st = i\<lparr>Status_ObservedGeneration := Generation i,
                       Status_Conditions := Status_Conditions (inst st)\<rparr>"
      and others: "\<forall>t. t \<noteq> ReadyCondition \<longrightarrow>
                     GetCondition t (conds (inst st)) = GetCondition t ?cs"
      by blast
    from others GetCondition_Set_same [of ?c "conds i"]
    have g: "GetCondition KeystoneAPIReadyCondition (conds (inst st)) = Some ?c"
      by (simp add: tc)
    have rest: "\<forall>t. t \<noteq> ReadyCondition \<and> t \<noteq> KeystoneAPIReadyCondition \<longrightarrow>
                      GetCondition t (conds (inst st)) = GetCondition t (conds i)"
      using others by (simp add: GetCondition_Set_apart tc)
    from st g rest show ?thesis by blast
  qed
  have svc: "\<exists>st. snd (Reconcile w) = Some st
               \<and> fst (Reconcile w) = (RequeueAfterSeconds 5, PatchInstance w (inst st))
               \<and> calls st = [] \<and> remote st = Registry w
               \<and> inst st = i\<lparr>Status_ObservedGeneration := Generation i,
                              Status_Conditions := Status_Conditions (inst st)\<rparr>
               \<and> GetCondition KeystoneAPIReadyCondition (conds (inst st))
                   = Some (TrueCondition KeystoneAPIReadyCondition KeystoneAPIReadyMessage)
               \<and> GetCondition AdminServiceClientReadyCondition (conds (inst st))
                   = Some (TrueCondition AdminServiceClientReadyCondition
                             AdminServiceClientReadyMessage)
               \<and> (\<forall>t. t \<noteq> ReadyCondition \<and> t \<noteq> KeystoneAPIReadyCondition
                        \<and> t \<noteq> AdminServiceClientReadyCondition \<longrightarrow>
                      GetCondition t (conds (inst st)) = GetCondition t (conds i))"
    if a: "GetKeystoneAPI w = Inr api" "api_IsReady api"
      "GetAdminServiceClient w = (NoRequeue, None)"
      "GetKeystoneServiceWithName w = Inl e" "IsNotFound e" for api e
  proof -
    let ?k = "TrueCondition KeystoneAPIReadyCondition KeystoneAPIReadyMessage"
    let ?a = "TrueCondition AdminServiceClientReadyCondition AdminServiceClientReadyMessage"
    let ?cs = "Conditions_Set ?a (Conditions_Set ?k (conds i))"
    have tk: "Type ?k = KeystoneAPIReadyCondition"
      and ta: "Type ?a = AdminServiceClientReadyCondition" by (simp_all add: TrueCondition_def)
    from body reconcileDependencies_service_absent [OF a nd]
    have b: "reconcileBody w ?S =
           ((RequeueAfterSeconds 5, None),
            \<lparr>inst = i\<lparr>Status_ObservedGeneration := Generation i, Status_Conditions := Some ?cs\<rparr>,
             remote = Registry w, calls = []\<rparr>)"
      by (simp add: setConditions_def MarkTrue_def)
    from Reconcile_conditions_only [OF assms(1,2) b] obtain st where
      st: "snd (Reconcile w) = Some st"
        "fst (Reconcile w) = (RequeueAfterSeconds 5, PatchInstance w (inst st))"
        "calls st = []" "remote st = Registry w"
        "inst st = i\<lparr>Status_ObservedGeneration := Generation i,
                       Status_Conditions := Status_Conditions (inst st)\<rparr>"
      and others: "\<forall>t. t \<noteq> ReadyCondition \<longrightarrow>
                     GetCondition t (conds (inst st)) = GetCondition t ?cs"
      by blast
    from others GetCondition_Set_same [of ?a "Conditions_Set ?k (conds i)"]
    have ga: "GetCondition AdminServiceClientReadyCondition (conds (inst st)) = Some ?a"
      by (simp add: ta)
    from others GetCondition_Set_same [of ?k "conds i"]
    have gk: "GetCondition KeystoneAPIReadyCondition (conds (inst st)) = Some ?k"
      by (simp add: GetCondition_Set_apart ta tk)
    have rest: "\<forall>t. t \<noteq> ReadyCondition \<and> t \<noteq> KeystoneAPIReadyCondition
                        \<and> t \<noteq> AdminServiceClientReadyCondition \<longrightarrow>
                      GetCondition t (conds (inst st)) = GetCondition t (conds i)"
      using others by (simp add: GetCondition_Set_apart ta tk)
    from st ga gk rest show ?thesis by blast
  qed
  from api svc show ?thesis by blast
qed

subsection \<open>Runs in the small world\<close>

lemma sample_Reconcile:
  "fst (Reconcile sampleWorld) = (NoRequeue, None)
   \<and> map_option (\<lambda>st. conds (inst st)) (snd (Reconcile sampleWorld)) =
       Some [TrueCondition KeystoneAPIReadyCondition KeystoneAPIReadyMessage,
             TrueCondition AdminServiceClientReadyCondition AdminServiceClientReadyMessage,
             TrueCondition KeystoneServiceOSEndpointsReadyCondition
               KeystoneServiceOSEndpointsReadyMessage,
             TrueCondition ReadyCondition ReadyMessage]"
  by (simp add: sample_defs engine_defs orchestrator_defs)

lemma absentService_run:
  "Reconcile absentServiceWorld =
     ((RequeueAfterSeconds 5, None),
      Some \<lparr>inst = readyInstance, remote = [], calls = []\<rparr>)"
  by (simp add: absentServiceWorld_def readyInstance_def sample_defs orchestrator_defs)

lemma absentAPI_run:
  "Reconcile absentAPIWorld =
     ((RequeueAfterSeconds 5, None),
      Some \<lparr>inst = readyInstance
               \<lparr>Status_Conditions := Some
                  [FalseCondition ReadyCondition ErrorReason SeverityWarning
                     KeystoneAPIReadyNotFoundMessage,
                   FalseCondition KeystoneAPIReadyCondition ErrorReason SeverityWarning
                     KeystoneAPIReadyNotFoundMessage,
                   TrueCondition AdminServiceClientReadyCondition AdminServiceClientReadyMessage,
                   TrueCondition KeystoneServiceOSEndpointsReadyCondition
                     KeystoneServiceOSEndpointsReadyMessage,
                   TrueCondition KeystoneServiceReadyCondition ReadyMessage]\<rparr>,
            remote = [], calls = []\<rparr>)"
  by (simp add: absentAPIWorld_def readyInstance_def sample_defs orchestrator_defs)

text \<open>
  Claim C8 as stated fails for the service registration, for which the pass records no
  condition: run on an instance whose conditions are all true, it asks for the retry and
  hands over the very same instance, \<open>Ready\<close> still true.
\<close>

theorem absent_service_records_nothing:
  "GetInstance absentServiceWorld = Inr readyInstance
   \<and> DeletionTimestamp readyInstance = None
   \<and> GetKeystoneServiceWithName absentServiceWorld = Inl (NotFound ''svc'')
   \<and> IsNotFound (NotFound ''svc'')
   \<and> fst (Reconcile absentServiceWorld) = (RequeueAfterSeconds 5, None)
   \<and> map_option inst (snd (Reconcile absentServiceWorld)) = Some readyInstance
   \<and> AllSubConditionIsTrue (conds readyInstance)
   \<and> GetCondition ReadyCondition (conds readyInstance)
       = Some (TrueCondition ReadyCondition ReadyMessage)"
  by (simp add: absentService_run)
     (simp add: absentServiceWorld_def readyInstance_def sample_defs conds_def
        AllSubConditionIsTrue_def GetCondition_def TrueCondition_def)

theorem Ready_is_rolled_up_witness:
  "GetInstance absentAPIWorld = Inr readyInstance
   \<and> NewHelper absentAPIWorld = None
   \<and> conds (inst (snd (reconcileBody absentAPIWorld
                \<lparr>inst = readyInstance, remote = Registry absentAPIWorld, calls = []\<rparr>)))
       = [TrueCondition ReadyCondition ReadyMessage,
          FalseCondition KeystoneAPIReadyCondition ErrorReason SeverityWarning
            KeystoneAPIReadyNotFoundMessage,
          TrueCondition AdminServiceClientReadyCondition AdminServiceClientReadyMessage,
          TrueCondition KeystoneServiceOSEndpointsReadyCondition
            KeystoneServiceOSEndpointsReadyMessage,
          TrueCondition KeystoneServiceReadyCondition ReadyMessage]
   \<and> map_option (\<lambda>st. GetCondition ReadyCondition (conds (inst st)))
       (snd (Reconcile absentAPIWorld))
       = Some (Some (FalseCondition ReadyCondition ErrorReason SeverityWarning
                       KeystoneAPIReadyNotFoundMessage))
   \<and> map_option (\<lambda>st. GetCondition KeystoneAPIReadyCondition (conds (inst st)))
       (snd (Reconcile absentAPIWorld))
       = Some (Some (FalseCondition KeystoneAPIReadyCondition ErrorReason SeverityWarning
                       KeystoneAPIReadyNotFoundMessage))"
proof -
  have g: "GetInstance absentAPIWorld = Inr readyInstance"
    and h: "NewHelper absentAPIWorld = None"
    by (simp_all add: absentAPIWorld_def sampleWorld_def)
  have body: "conds (inst (snd (reconcileBody absentAPIWorld
                \<lparr>inst = readyInstance, remote = Registry absentAPIWorld, calls = []\<rparr>)))
       = [TrueCondition ReadyCondition ReadyMessage,
          FalseCondition KeystoneAPIReadyCondition ErrorReason SeverityWarning
            KeystoneAPIReadyNotFoundMessage,
          TrueCondition AdminServiceClientReadyCondition AdminServiceClientReadyMessage,
          TrueCondition KeystoneServiceOSEndpointsReadyCondition
            KeystoneServiceOSEndpointsReadyMessage,
          TrueCondition KeystoneServiceReadyCondition ReadyMessage]"
    by (simp add: absentAPIWorld_def readyInstance_def sample_defs orchestrator_defs)
  from Ready_is_rolled_up [OF g h] obtain st c where
    st: "snd (Reconcile absentAPIWorld) = Some st"
      "GetCondition ReadyCondition (conds (inst st)) = Some c"
    by (auto simp add: Let_def)
  from st absentAPI_run
  have "map_option (\<lambda>st. GetCondition ReadyCondition (conds (inst st)))
          (snd (Reconcile absentAPIWorld))
        = Some (Some (FalseCondition ReadyCondition ErrorReason SeverityWarning
                        KeystoneAPIReadyNotFoundMessage))
      \<and> map_option (\<lambda>st. GetCondition KeystoneAPIReadyCondition (conds (inst st)))
          (snd (Reconcile absentAPIWorld))
        = Some (Some (FalseCondition KeystoneAPIReadyCondition ErrorReason SeverityWarning
                        KeystoneAPIReadyNotFoundMessage))"
    by (auto simp add: conds_def GetCondition_def FalseCondition_def TrueCondition_def)
  with g h body show ?thesis by simp
qed

theorem absent_dependency_schedules_retry_witness:
  "GetInstance absentAPIWorld = Inr readyInstance
   \<and> NewHelper absentAPIWorld = None
   \<and> DeletionTimestamp readyInstance = None
   \<and> GetFinalizer absentAPIWorld \<in> set (Finalizers readyInstance)
   \<and> GetKeystoneAPI absentAPIWorld = Inl (NotFound ''keystone'')
   \<and> IsNotFound (NotFound ''keystone'')
   \<and> fst (Reconcile absentAPIWorld) = (RequeueAfterSeconds 5, None)
   \<and> map_option (\<lambda>st. GetCondition KeystoneAPIReadyCondition (conds (inst st)))
       (snd (Reconcile absentAPIWorld))
       = Some (Some (FalseCondition KeystoneAPIReadyCondition ErrorReason SeverityWarning
                       KeystoneAPIReadyNotFoundMessage))
   \<and> GetInstance absentServiceWorld = Inr readyInstance
   \<and> NewHelper absentServiceWorld = None
   \<and> GetFinalizer absentServiceWorld \<in> set (Finalizers readyInstance)
   \<and> GetKeystoneAPI absentServiceWorld = Inr sampleAPI
   \<and> api_IsReady sampleAPI
   \<and> GetAdminServiceClient absentServiceWorld = (NoRequeue, None)
   \<and> GetKeystoneServiceWithName absentServiceWorld = Inl (NotFound ''svc'')
   \<and> fst (Reconcile absentServiceWorld) = (RequeueAfterSeconds 5, None)
   \<and> map_option (\<lambda>st. GetCondition KeystoneServiceReadyCondition (conds (inst st)))
       (snd (Reconcile absentServiceWorld))
       = Some (GetCondition KeystoneServiceReadyCondition (conds readyInstance))"
proof -
  have g: "GetInstance absentAPIWorld = Inr readyInstance"
    and h: "NewHelper absentAPIWorld = None"
    and k: "GetKeystoneAPI absentAPIWorld = Inl (NotFound ''keystone'')"
    and f: "GetFinalizer absentAPIWorld \<in> set (Finalizers readyInstance)"
    by (simp_all add: absentAPIWorld_def sampleWorld_def readyInstance_def sampleInstance_def)
  have g': "GetInstance absentServiceWorld = Inr readyInstance"
    and h': "NewHelper absentServiceWorld = None"
    and k': "GetKeystoneAPI absentServiceWorld = Inr sampleAPI"
    and a': "GetAdminServiceClient absentServiceWorld = (NoRequeue, None)"
    and s': "GetKeystoneServiceWithName absentServiceWorld = Inl (NotFound ''svc'')"
    and f': "GetFinalizer absentServiceWorld \<in> set (Finalizers readyInstance)"
    by (simp_all add: absentServiceWorld_def sampleWorld_def readyInstance_def
          sampleInstance_def)
  have c: "Status_Conditions readyInstance \<noteq> None"
    and d: "DeletionTimestamp readyInstance = None"
    by (simp_all add: readyInstance_def sampleInstance_def)
  have n: "IsNotFound (NotFound ''keystone'')" "IsNotFound (NotFound ''svc'')"
    and r: "api_IsReady sampleAPI"
    by (simp_all add: sampleAPI_def)
  from absent_dependency_schedules_retry [OF g h c d f] k n(1)
  obtain st where st: "snd (Reconcile absentAPIWorld) = Some st"
    "fst (Reconcile absentAPIWorld) = (RequeueAfterSeconds 5, PatchInstance absentAPIWorld (inst st))"
    "GetCondition KeystoneAPIReadyCondition (conds (inst st))
       = Some (FalseCondition KeystoneAPIReadyCondition ErrorReason SeverityWarning
                 KeystoneAPIReadyNotFoundMessage)"
    by blast
  have p: "PatchInstance absentAPIWorld (inst st) = None"
    by (simp add: absentAPIWorld_def sampleWorld_def)
  from absent_dependency_schedules_retry [OF g' h' c d f'] k' r a' s' n(2)
  obtain st' where st': "snd (Reconcile absentServiceWorld) = Some st'"
    "fst (Reconcile absentServiceWorld)
       = (RequeueAfterSeconds 5, PatchInstance absentServiceWorld (inst st'))"
    "\<forall>t. t \<noteq> ReadyCondition \<and> t \<noteq> KeystoneAPIReadyCondition
          \<and> t \<noteq> AdminServiceClientReadyCondition \<longrightarrow>
        GetCondition t (conds (inst st')) = GetCondition t (conds readyInstance)"
    by blast
  have p': "PatchInstance absentServiceWorld (inst st') = None"
    by (simp add: absentServiceWorld_def sampleWorld_def)
  from st'(3) have q: "GetCondition KeystoneServiceReadyCondition (conds (inst st'))
                         = GetCondition KeystoneServiceReadyCondition (conds readyInstance)"
    by simp
  from st p st'(1,2) q p' g h k f g' h' k' a' s' f' d n r show ?thesis by simp
qed

end
